theory Spec2Isabelle
  imports Complex_Main "HOL-Library.Word" "HOL-Library.Multiset"
begin

section \<open>Scalars and vectors\<close>

text \<open>
  The renderer computes on \<open>float\<close>. The embedding takes the scalars to be exact reals:
  rounding, NaN and the infinities are outside the model. Where the source divides by zero
  the model has the quotient 0 of HOL, so a statement about the value of a quotient describes
  the program only where the divisor is not zero; the statements on the depth test, on
  clipping and on the inverse carry that hypothesis, and the two divisions whose divisor the
  claims are about (the shadow factor's sample count, the inverse's determinant) return
  \<open>None\<close> at zero.
  \<open>unsigned\<close> is \<open>32 word\<close>, \<open>int\<close> is \<open>int\<close> with the conversions written out.
\<close>

datatype Vec2f = Vec2f (x2: real) (y2: real)
datatype Vec3f = Vec3f (x3: real) (y3: real) (z3: real)
datatype Vec4f = Vec4f (x4: real) (y4: real) (z4: real) (w4: real)

text \<open>\<open>vec<4,T>::operator[]\<close>: \<open>i <= 0 ? x : (1 == i ? y : (2 == i ? z : w))\<close>,
  under \<open>assert(i < 4)\<close>.\<close>

definition nth4 :: "Vec4f \<Rightarrow> nat \<Rightarrow> real" where
  "nth4 v i = (if i \<le> 0 then x4 v else if 1 = i then y4 v else if 2 = i then z4 v else w4 v)"

definition upd4 :: "Vec4f \<Rightarrow> nat \<Rightarrow> real \<Rightarrow> Vec4f" where
  "upd4 v i r = (if i \<le> 0 then Vec4f r (y4 v) (z4 v) (w4 v)
                 else if 1 = i then Vec4f (x4 v) r (z4 v) (w4 v)
                 else if 2 = i then Vec4f (x4 v) (y4 v) r (w4 v)
                 else Vec4f (x4 v) (y4 v) (z4 v) r)"

definition add2 :: "Vec2f \<Rightarrow> Vec2f \<Rightarrow> Vec2f" where
  "add2 a b = Vec2f (x2 a + x2 b) (y2 a + y2 b)"
definition sub2 :: "Vec2f \<Rightarrow> Vec2f \<Rightarrow> Vec2f" where
  "sub2 a b = Vec2f (x2 a - x2 b) (y2 a - y2 b)"
definition scale2 :: "Vec2f \<Rightarrow> real \<Rightarrow> Vec2f" where
  "scale2 a r = Vec2f (x2 a * r) (y2 a * r)"

definition add3 :: "Vec3f \<Rightarrow> Vec3f \<Rightarrow> Vec3f" where
  "add3 a b = Vec3f (x3 a + x3 b) (y3 a + y3 b) (z3 a + z3 b)"
definition sub3 :: "Vec3f \<Rightarrow> Vec3f \<Rightarrow> Vec3f" where
  "sub3 a b = Vec3f (x3 a - x3 b) (y3 a - y3 b) (z3 a - z3 b)"
definition scale3 :: "Vec3f \<Rightarrow> real \<Rightarrow> Vec3f" where
  "scale3 a r = Vec3f (x3 a * r) (y3 a * r) (z3 a * r)"

definition add4 :: "Vec4f \<Rightarrow> Vec4f \<Rightarrow> Vec4f" where
  "add4 a b = Vec4f (x4 a + x4 b) (y4 a + y4 b) (z4 a + z4 b) (w4 a + w4 b)"
definition sub4 :: "Vec4f \<Rightarrow> Vec4f \<Rightarrow> Vec4f" where
  "sub4 a b = Vec4f (x4 a - x4 b) (y4 a - y4 b) (z4 a - z4 b) (w4 a - w4 b)"
definition scale4 :: "Vec4f \<Rightarrow> real \<Rightarrow> Vec4f" where
  "scale4 a r = Vec4f (x4 a * r) (y4 a * r) (z4 a * r) (w4 a * r)"

definition dot3 :: "Vec3f \<Rightarrow> Vec3f \<Rightarrow> real" where
  "dot3 a b = x3 a * x3 b + y3 a * y3 b + z3 a * z3 b"

definition cross :: "Vec3f \<Rightarrow> Vec3f \<Rightarrow> Vec3f" where
  "cross v1 v2 = Vec3f (y3 v1 * z3 v2 - z3 v1 * y3 v2)
                       (z3 v1 * x3 v2 - x3 v1 * z3 v2)
                       (x3 v1 * y3 v2 - y3 v1 * x3 v2)"

text \<open>\<open>proj<2>\<close> of a \<open>Vec4f\<close>: its first two components.\<close>

definition proj2 :: "Vec4f \<Rightarrow> Vec2f" where
  "proj2 v = Vec2f (x4 v) (y4 v)"

text \<open>
  \<open>int(f)\<close> on a float truncates towards zero. Outside the range of \<open>int\<close> C++ leaves the
  conversion undefined; the model takes the value x86 produces there, \<open>INT_MIN\<close>.
\<close>

definition float2int :: "real \<Rightarrow> int" where
  "float2int r = (let t = (if 0 \<le> r then \<lfloor>r\<rfloor> else \<lceil>r\<rceil>)
                  in if - (2 ^ 31) \<le> t \<and> t < 2 ^ 31 then t else - (2 ^ 31))"

section \<open>The rasterizer\<close>

definition barycentric :: "Vec2f \<Rightarrow> Vec2f \<Rightarrow> Vec2f \<Rightarrow> Vec2f \<Rightarrow> Vec3f" where
  "barycentric A B C P =
     (let t0 = Vec3f (x2 B - x2 A) (x2 C - x2 A) (x2 A - x2 P);
          t1 = Vec3f (y2 B - y2 A) (y2 C - y2 A) (y2 A - y2 P);
          u = cross t0 t1
      in if \<bar>z3 u\<bar> < 1 / 100000 then Vec3f (- 1) 0 0
         else Vec3f (1 - (x3 u + y3 u) / z3 u) (x3 u / z3 u) (y3 u / z3 u))"

text \<open>The three screen-space vertices \<open>screenCoords[0..2]\<close>.\<close>

type_synonym tri = "Vec4f \<times> Vec4f \<times> Vec4f"

text \<open>
  \<open>IShader::fragment(bar, color)\<close> returns \<open>false\<close> to discard, or \<open>true\<close> with the colour:
  \<open>None\<close> and \<open>Some colour\<close>. Both shaders of the repository compute it from the weights and
  state that is fixed while one triangle is drawn, so it is a function of the weights.
\<close>

type_synonym fragment = "Vec3f \<Rightarrow> Vec3f option"

text \<open>
  The buffers are reached through raw pointers, \<open>Vec3f *colorBuffer\<close> and \<open>float *zBuffer\<close>:
  the memory from the pointer on, indexed by slot. \<open>covered\<close> and \<open>color\<close> are the locals of
  one pixel.
\<close>

record raster =
  colorBuffer :: "nat \<Rightarrow> Vec3f"
  zBuffer :: "nat \<Rightarrow> real"
  covered :: bool
  color :: Vec3f

text \<open>The bounding box, clamped to the raster: \<open>bboxmin\<close> and \<open>bboxmax\<close> before the loops.\<close>

definition bboxmin :: "tri \<Rightarrow> 32 word \<Rightarrow> 32 word \<Rightarrow> int \<times> int" where
  "bboxmin sc width height =
     (case sc of (s0, s1, s2) \<Rightarrow>
        (max 0 (fold (\<lambda>v m. min m (float2int (x4 v))) [s0, s1, s2] (sint (width - 1))),
         max 0 (fold (\<lambda>v m. min m (float2int (y4 v))) [s0, s1, s2] (sint (height - 1)))))"

definition bboxmax :: "tri \<Rightarrow> 32 word \<Rightarrow> 32 word \<Rightarrow> int \<times> int" where
  "bboxmax sc width height =
     (case sc of (s0, s1, s2) \<Rightarrow>
        (min (sint (width - 1)) (fold (\<lambda>v m. max m (float2int (x4 v))) [s0, s1, s2] 0),
         min (sint (height - 1)) (fold (\<lambda>v m. max m (float2int (y4 v))) [s0, s1, s2] 0)))"

text \<open>The pixels the two outer loops visit, in their order: \<open>x\<close> outside, \<open>y\<close> inside.\<close>

definition bboxPixels :: "tri \<Rightarrow> 32 word \<Rightarrow> 32 word \<Rightarrow> (int \<times> int) list" where
  "bboxPixels sc width height =
     concat (map (\<lambda>x. map (\<lambda>y. (x, y))
                   [snd (bboxmin sc width height) .. snd (bboxmax sc width height)])
               [fst (bboxmin sc width height) .. fst (bboxmax sc width height)])"

text \<open>\<open>Vec2f sample(x + d[i][0], y + d[i][1])\<close>.\<close>

definition samplePoint :: "(real \<times> real) list \<Rightarrow> int \<Rightarrow> int \<Rightarrow> nat \<Rightarrow> Vec2f" where
  "samplePoint d x y i = Vec2f (of_int x + fst (d ! i)) (of_int y + snd (d ! i))"

text \<open>The perspective-corrected depth \<open>z\<close> of a sample with weights \<open>barSample\<close>.\<close>

definition sampleDepth :: "tri \<Rightarrow> Vec3f \<Rightarrow> real" where
  "sampleDepth sc barSample =
     (case sc of (s0, s1, s2) \<Rightarrow>
        (let w = w4 s0 * x3 barSample + w4 s1 * y3 barSample + w4 s2 * z3 barSample;
             w = 1 / w;
             z = z4 s0 * x3 barSample + z4 s1 * y3 barSample + z4 s2 * z3 barSample
         in z * w))"

text \<open>\<open>unsigned idx = cntSample * (y*width + x) + i\<close>, in unsigned arithmetic.\<close>

definition sampleIdx :: "32 word \<Rightarrow> 32 word \<Rightarrow> int \<Rightarrow> int \<Rightarrow> nat \<Rightarrow> nat" where
  "sampleIdx cntSample width x y i =
     unat (cntSample * (word_of_int y * width + word_of_int x) + word_of_nat i)"

text \<open>The point a pixel is shaded at, \<open>Vec2f(x + 0.5f, y + 0.5f)\<close>: the pixel's centre.\<close>

definition pixelCenter :: "int \<Rightarrow> int \<Rightarrow> Vec2f" where
  "pixelCenter x y = Vec2f (of_int x + 1 / 2) (of_int y + 1 / 2)"

definition baryOf :: "tri \<Rightarrow> Vec2f \<Rightarrow> Vec3f" where
  "baryOf sc P = (case sc of (s0, s1, s2) \<Rightarrow> barycentric (proj2 s0) (proj2 s1) (proj2 s2) P)"

text \<open>
  One pass of the body of the sample loop. \<open>Some\<close> is the state the next sample starts from
  (after \<open>continue\<close> or after the two writes), \<open>None\<close> is \<open>break\<close>.
\<close>

definition sampleStep ::
  "tri \<Rightarrow> fragment \<Rightarrow> 32 word \<Rightarrow> (real \<times> real) list \<Rightarrow> 32 word \<Rightarrow> int \<Rightarrow> int \<Rightarrow> nat
     \<Rightarrow> raster \<Rightarrow> raster option" where
  "sampleStep sc frag width d cntSample x y i st =
     (let barSample = baryOf sc (samplePoint d x y i);
          z = sampleDepth sc barSample;
          idx = sampleIdx cntSample width x y i
      in if x3 barSample < 0 \<or> y3 barSample < 0 \<or> z3 barSample < 0 \<or> z < zBuffer st idx
         then Some st
         else if \<not> covered st
         then (case frag (baryOf sc (pixelCenter x y)) of
                 None \<Rightarrow> None
               | Some c \<Rightarrow>
                   Some (st\<lparr>colorBuffer := (colorBuffer st)(idx := c),
                            zBuffer := (zBuffer st)(idx := z),
                            covered := True, color := c\<rparr>))
         else Some (st\<lparr>colorBuffer := (colorBuffer st)(idx := color st),
                       zBuffer := (zBuffer st)(idx := z)\<rparr>))"

text \<open>The sample loop over the sample numbers \<open>ns\<close>; \<open>triangle\<close> runs it on \<open>0 .. cntSample - 1\<close>.\<close>

fun sampleLoop ::
  "tri \<Rightarrow> fragment \<Rightarrow> 32 word \<Rightarrow> (real \<times> real) list \<Rightarrow> 32 word \<Rightarrow> int \<Rightarrow> int \<Rightarrow> nat list
     \<Rightarrow> raster \<Rightarrow> raster" where
  "sampleLoop sc frag width d cntSample x y [] st = st"
| "sampleLoop sc frag width d cntSample x y (i # ns) st =
     (case sampleStep sc frag width d cntSample x y i st of
        None \<Rightarrow> st
      | Some st' \<Rightarrow> sampleLoop sc frag width d cntSample x y ns st')"

text \<open>One pixel: fresh \<open>covered = false\<close> and a default \<open>color\<close>, then the sample loop.\<close>

definition pixelStep ::
  "tri \<Rightarrow> fragment \<Rightarrow> 32 word \<Rightarrow> (real \<times> real) list \<Rightarrow> 32 word \<Rightarrow> nat list \<Rightarrow> int \<times> int
     \<Rightarrow> (nat \<Rightarrow> Vec3f) \<times> (nat \<Rightarrow> real) \<Rightarrow> (nat \<Rightarrow> Vec3f) \<times> (nat \<Rightarrow> real)" where
  "pixelStep sc frag width d cntSample ns p bufs =
     (let st = sampleLoop sc frag width d cntSample (fst p) (snd p) ns
                 \<lparr>colorBuffer = fst bufs, zBuffer = snd bufs, covered = False,
                  color = Vec3f 0 0 0\<rparr>
      in (colorBuffer st, zBuffer st))"

text \<open>
  The traversal with the order made a parameter: the pixels \<open>pxs\<close> one after the other, the
  samples of pixel \<open>p\<close> in the order \<open>ord p\<close>.
\<close>

definition rasterize ::
  "tri \<Rightarrow> fragment \<Rightarrow> 32 word \<Rightarrow> (real \<times> real) list \<Rightarrow> 32 word \<Rightarrow> (int \<times> int \<Rightarrow> nat list)
     \<Rightarrow> (int \<times> int) list
     \<Rightarrow> (nat \<Rightarrow> Vec3f) \<times> (nat \<Rightarrow> real) \<Rightarrow> (nat \<Rightarrow> Vec3f) \<times> (nat \<Rightarrow> real)" where
  "rasterize sc frag width d cntSample ord pxs bufs =
     fold (\<lambda>p. pixelStep sc frag width d cntSample (ord p) p) pxs bufs"

text \<open>\<open>triangle\<close>: the bounding box in loop order, each pixel's samples in ascending order.\<close>

definition triangle ::
  "tri \<Rightarrow> fragment \<Rightarrow> (nat \<Rightarrow> Vec3f) \<Rightarrow> (nat \<Rightarrow> real) \<Rightarrow> 32 word \<Rightarrow> 32 word
     \<Rightarrow> (real \<times> real) list \<Rightarrow> 32 word \<Rightarrow> (nat \<Rightarrow> Vec3f) \<times> (nat \<Rightarrow> real)" where
  "triangle sc frag cb zb width height d cntSample =
     rasterize sc frag width d cntSample (\<lambda>p. [0 ..< unat cntSample])
       (bboxPixels sc width height) (cb, zb)"

text \<open>
  The denominator of the 2-by-2 system \<open>barycentric\<close> solves: the component \<open>u.z\<close> of the
  cross product, which does not depend on the point \<open>P\<close>.
\<close>

definition baryDenom :: "tri \<Rightarrow> real" where
  "baryDenom sc =
     (case sc of (s0, s1, s2) \<Rightarrow>
        (x4 s1 - x4 s0) * (y4 s2 - y4 s0) - (x4 s2 - x4 s0) * (y4 s1 - y4 s0))"

text \<open>Memory before anything is stored in it, for closed examples.\<close>

definition blackMem :: "nat \<Rightarrow> Vec3f" where
  "blackMem = (\<lambda>k. Vec3f 0 0 0)"

definition zeroMem :: "nat \<Rightarrow> real" where
  "zeroMem = (\<lambda>k. 0)"

definition whiteFrag :: fragment where
  "whiteFrag = (\<lambda>bar. Some (Vec3f 255 255 255))"

text \<open>
  The interpolated \<open>w\<close> of a sample before \<open>w = 1.0f / w\<close>, and the triangles whose three
  \<open>w\<close> have one sign: for them the interpolated \<open>w\<close> of a sample that passes the weight test is
  not zero, and the depth \<open>z\<close> is a quotient of numbers.
\<close>

definition sampleW :: "tri \<Rightarrow> Vec3f \<Rightarrow> real" where
  "sampleW sc barSample =
     (case sc of (s0, s1, s2) \<Rightarrow>
        w4 s0 * x3 barSample + w4 s1 * y3 barSample + w4 s2 * z3 barSample)"

definition wSameSign :: "tri \<Rightarrow> bool" where
  "wSameSign sc =
     (case sc of (s0, s1, s2) \<Rightarrow>
        (0 < w4 s0 \<and> 0 < w4 s1 \<and> 0 < w4 s2) \<or> (w4 s0 < 0 \<and> w4 s1 < 0 \<and> w4 s2 < 0))"

text \<open>
  The test of the sample loop against a depth buffer \<open>zb\<close>: true when the sample is not
  skipped by \<open>continue\<close>.
\<close>

definition sampleAccepted ::
  "tri \<Rightarrow> 32 word \<Rightarrow> (real \<times> real) list \<Rightarrow> 32 word \<Rightarrow> (nat \<Rightarrow> real)
     \<Rightarrow> int \<Rightarrow> int \<Rightarrow> nat \<Rightarrow> bool" where
  "sampleAccepted sc width d cntSample zb x y i =
     (let barSample = baryOf sc (samplePoint d x y i)
      in \<not> (x3 barSample < 0 \<or> y3 barSample < 0 \<or> z3 barSample < 0
             \<or> sampleDepth sc barSample < zb (sampleIdx cntSample width x y i)))"

text \<open>
  What one sample \<open>s = ((x, y), i)\<close> does to the buffers once the pixel's fragment is known:
  nothing when the shader discards, the two writes when the sample passes the test.
\<close>

definition slotUpdate ::
  "tri \<Rightarrow> fragment \<Rightarrow> 32 word \<Rightarrow> (real \<times> real) list \<Rightarrow> 32 word \<Rightarrow> (int \<times> int) \<times> nat
     \<Rightarrow> (nat \<Rightarrow> Vec3f) \<times> (nat \<Rightarrow> real) \<Rightarrow> (nat \<Rightarrow> Vec3f) \<times> (nat \<Rightarrow> real)" where
  "slotUpdate sc frag width d cntSample s bufs =
     (case frag (baryOf sc (pixelCenter (fst (fst s)) (snd (fst s)))) of
        None \<Rightarrow> bufs
      | Some c \<Rightarrow>
          if sampleAccepted sc width d cntSample (snd bufs) (fst (fst s)) (snd (fst s)) (snd s)
          then ((fst bufs)(sampleIdx cntSample width (fst (fst s)) (snd (fst s)) (snd s) := c),
                (snd bufs)(sampleIdx cntSample width (fst (fst s)) (snd (fst s)) (snd s) :=
                   sampleDepth sc (baryOf sc (samplePoint d (fst (fst s)) (snd (fst s)) (snd s)))))
          else bufs)"

text \<open>
  The body of the pixel loop run for one sample \<open>s = ((x, y), i)\<close> alone: fresh \<open>covered\<close>, then
  the one pass of the sample loop. A traversal sample by sample is a sequence of these.
\<close>

definition sampleRun ::
  "tri \<Rightarrow> fragment \<Rightarrow> 32 word \<Rightarrow> (real \<times> real) list \<Rightarrow> 32 word \<Rightarrow> (int \<times> int) \<times> nat
     \<Rightarrow> (nat \<Rightarrow> Vec3f) \<times> (nat \<Rightarrow> real) \<Rightarrow> (nat \<Rightarrow> Vec3f) \<times> (nat \<Rightarrow> real)" where
  "sampleRun sc frag width d cntSample s bufs =
     pixelStep sc frag width d cntSample [snd s] (fst s) bufs"

text \<open>The samples of a traversal, in its order.\<close>

definition slotsOf ::
  "(int \<times> int \<Rightarrow> nat list) \<Rightarrow> (int \<times> int) list \<Rightarrow> ((int \<times> int) \<times> nat) list" where
  "slotsOf ord pxs = concat (map (\<lambda>p. map (Pair p) (ord p)) pxs)"

text \<open>
  Closed examples: depth buffers holding 1/2 and 1 everywhere, triangles at depth 1/2, a
  raster \<open>2^31\<close> pixels wide, and a shader whose colour is the weights it is given.
\<close>

definition halfMem :: "nat \<Rightarrow> real" where
  "halfMem = (\<lambda>k. 1 / 2)"

definition oneMem :: "nat \<Rightarrow> real" where
  "oneMem = (\<lambda>k. 1)"

definition thinTri :: tri where
  "thinTri = (Vec4f 0 0 (1 / 2) 1, Vec4f (1 / 2) 0 (1 / 2) 1, Vec4f 0 4 (1 / 2) 1)"

definition bigWidth :: "32 word" where
  "bigWidth = 2147483648"

definition weightFrag :: fragment where
  "weightFrag = (\<lambda>bar. Some bar)"

definition flatTri :: tri where
  "flatTri = (Vec4f 0 0 (1 / 2) 1, Vec4f 4 0 (1 / 2) 1, Vec4f 0 4 (1 / 2) 1)"

definition offTri :: tri where
  "offTri = (Vec4f (- 5) (- 5) (1 / 2) 1, Vec4f 10 2 (1 / 2) 1, Vec4f 2 10 (1 / 2) 1)"

section \<open>The homogeneous clipper\<close>

record Vertex =
  normal :: Vec3f
  worldCoord :: Vec4f
  clipCoord :: Vec4f
  uv :: Vec2f

text \<open>The vertex \<open>inter\<close> that \<open>pushIntersection\<close> builds for the edge from \<open>now\<close> to \<open>next\<close>.\<close>

definition intersection :: "Vertex \<Rightarrow> Vertex \<Rightarrow> nat \<Rightarrow> Vertex" where
  "intersection now next axis =
     (let t0 = w4 (clipCoord now) - nth4 (clipCoord now) axis;
          t1 = w4 (clipCoord next) - nth4 (clipCoord next) axis;
          t = t0 / (t0 - t1);
          w = 1 / w4 (clipCoord now) + t * (1 / w4 (clipCoord next) - 1 / w4 (clipCoord now));
          w = 1 / w
      in \<lparr>normal = scale3 (add3 (normal now) (scale3 (sub3 (normal next) (normal now)) t)) w,
          worldCoord =
            scale4 (add4 (worldCoord now) (scale4 (sub4 (worldCoord next) (worldCoord now)) t)) w,
          clipCoord = add4 (clipCoord now) (scale4 (sub4 (clipCoord next) (clipCoord now)) t),
          uv = scale2 (add2 (uv now) (scale2 (sub2 (uv next) (uv now)) t)) w\<rparr>)"

definition pushIntersection :: "Vertex list \<Rightarrow> Vertex \<Rightarrow> Vertex \<Rightarrow> nat \<Rightarrow> Vertex list" where
  "pushIntersection result now next axis = result @ [intersection now next axis]"

text \<open>One pass of the loop of \<open>singleFaceZClip\<close>, for the edge that starts at index \<open>i\<close>.\<close>

definition clipStep :: "Vertex list \<Rightarrow> nat \<Rightarrow> nat \<Rightarrow> Vertex list \<Rightarrow> Vertex list" where
  "clipStep original axis i result =
     (let now = original ! i;
          next = original ! ((i + 1) mod length original);
          checkNow = nth4 (clipCoord now) axis / w4 (clipCoord now);
          checkNext = nth4 (clipCoord next) axis / w4 (clipCoord next);
          result = (if checkNow \<le> 1 then result @ [now] else result)
      in if (checkNow < 1 \<and> checkNext > 1) \<or> (checkNow > 1 \<and> checkNext < 1)
         then pushIntersection result now next axis
         else result)"

text \<open>\<open>result\<close> is passed by reference and appended to; the model returns it.\<close>

definition singleFaceZClip :: "Vertex list \<Rightarrow> Vertex list \<Rightarrow> nat \<Rightarrow> Vertex list" where
  "singleFaceZClip original result axis =
     fold (clipStep original axis) [0 ..< length original] result"

text \<open>\<open>vertex.clipCoord[axis] = -vertex.clipCoord[axis]\<close>.\<close>

definition flipAxis :: "nat \<Rightarrow> Vertex \<Rightarrow> Vertex" where
  "flipAxis axis v = v\<lparr>clipCoord := upd4 (clipCoord v) axis (- nth4 (clipCoord v) axis)\<rparr>"

definition homogeneousClip :: "Vertex list \<Rightarrow> Vertex list \<Rightarrow> nat \<Rightarrow> Vertex list" where
  "homogeneousClip original result axis =
     (let intermediate = singleFaceZClip original [] axis;
          intermediate = map (flipAxis axis) intermediate;
          result = singleFaceZClip intermediate result axis
      in map (flipAxis axis) result)"

text \<open>The quantity the clipper tests, \<open>clipCoord[axis] / clipCoord.w\<close>.\<close>

definition clipRatio :: "nat \<Rightarrow> Vertex \<Rightarrow> real" where
  "clipRatio axis v = nth4 (clipCoord v) axis / w4 (clipCoord v)"

text \<open>
  The canonical view volume in the words of the specification, for one axis:
  \<open>-w \<le> axis \<le> w\<close> with \<open>w > 0\<close>.
\<close>

definition insideVolume :: "nat \<Rightarrow> Vertex \<Rightarrow> bool" where
  "insideVolume axis v =
     (0 < w4 (clipCoord v) \<and> - w4 (clipCoord v) \<le> nth4 (clipCoord v) axis
      \<and> nth4 (clipCoord v) axis \<le> w4 (clipCoord v))"

text \<open>
  The intersection vertex in the words of the specification: the clip coordinate
  interpolated linearly at \<open>t\<close>; world coordinate, UV and normal each divided by its
  endpoint's \<open>w\<close>, interpolated linearly at \<open>t\<close>, and multiplied by the \<open>w\<close> obtained by
  inverting the linearly interpolated reciprocal of \<open>w\<close>.
\<close>

definition specIntersection :: "Vertex \<Rightarrow> Vertex \<Rightarrow> nat \<Rightarrow> Vertex" where
  "specIntersection now next axis =
     (let w0 = w4 (clipCoord now); w1 = w4 (clipCoord next);
          t = (w0 - nth4 (clipCoord now) axis)
              / ((w0 - nth4 (clipCoord now) axis) - (w1 - nth4 (clipCoord next) axis));
          w = 1 / (1 / w0 + t * (1 / w1 - 1 / w0))
      in \<lparr>normal = scale3 (add3 (scale3 (normal now) (1 / w0))
                        (scale3 (sub3 (scale3 (normal next) (1 / w1))
                                      (scale3 (normal now) (1 / w0))) t)) w,
          worldCoord = scale4 (add4 (scale4 (worldCoord now) (1 / w0))
                        (scale4 (sub4 (scale4 (worldCoord next) (1 / w1))
                                      (scale4 (worldCoord now) (1 / w0))) t)) w,
          clipCoord = add4 (clipCoord now) (scale4 (sub4 (clipCoord next) (clipCoord now)) t),
          uv = scale2 (add2 (scale2 (uv now) (1 / w0))
                        (scale2 (sub2 (scale2 (uv next) (1 / w1))
                                      (scale2 (uv now) (1 / w0))) t)) w\<rparr>)"

text \<open>Closed examples for the clipper.\<close>

definition edgeNow :: Vertex where
  "edgeNow = \<lparr>normal = Vec3f 0 0 1, worldCoord = Vec4f 0 0 1 1, clipCoord = Vec4f 0 0 1 2,
              uv = Vec2f 1 1\<rparr>"

definition edgeNext :: Vertex where
  "edgeNext = \<lparr>normal = Vec3f 0 0 1, worldCoord = Vec4f 0 0 3 1, clipCoord = Vec4f 0 0 3 2,
               uv = Vec2f 1 1\<rparr>"

definition vtx :: "Vec4f \<Rightarrow> Vertex" where
  "vtx c = \<lparr>normal = Vec3f 0 0 1, worldCoord = Vec4f 0 0 0 1, clipCoord = c, uv = Vec2f 0 0\<rparr>"

definition negWPoly :: "Vertex list" where
  "negWPoly = [vtx (Vec4f 0 0 (- (1 / 2)) (- 1)), vtx (Vec4f 1 0 (- (1 / 2)) (- 1)),
               vtx (Vec4f 0 1 (- (1 / 2)) (- 1))]"

definition insidePoly :: "Vertex list" where
  "insidePoly = [vtx (Vec4f 0 0 (1 / 2) 1), vtx (Vec4f 1 0 (- 1) 1), vtx (Vec4f 0 1 1 1)]"

definition beyondPoly :: "Vertex list" where
  "beyondPoly = [vtx (Vec4f 0 0 2 1), vtx (Vec4f 1 0 3 1), vtx (Vec4f 0 1 4 2)]"

definition behindPoly :: "Vertex list" where
  "behindPoly = [vtx (Vec4f 0 0 (- 2) 1), vtx (Vec4f 1 0 (- 3) 1), vtx (Vec4f 0 1 (- 5) 2)]"

section \<open>The shadow factor of the Phong shader\<close>

text \<open>
  The varying matrices hold one column per vertex: \<open>mat<4,3,float> vScreenCoords\<close> is four
  rows of three components, \<open>mat<3,3,float> vLightSpacePos\<close> three rows. A matrix times the
  weights is the vector of the dot products of its rows with the weights.
\<close>

type_synonym mat43 = "Vec3f \<times> Vec3f \<times> Vec3f \<times> Vec3f"
type_synonym mat33 = "Vec3f \<times> Vec3f \<times> Vec3f"

definition mulMat33 :: "mat33 \<Rightarrow> Vec3f \<Rightarrow> Vec3f" where
  "mulMat33 m v = (case m of (r0, r1, r2) \<Rightarrow> Vec3f (dot3 r0 v) (dot3 r1 v) (dot3 r2 v))"

text \<open>
  The head of \<open>Shader::fragment\<close>: the interpolated reciprocal of \<open>w\<close> is guarded, the fragment
  discarded (\<open>None\<close>) when it is below 1e-7 in absolute value, and the light-space position
  \<open>vLightSpacePos * bar * w\<close> recovered otherwise.
\<close>

definition fragmentLightSpacePos :: "mat43 \<Rightarrow> mat33 \<Rightarrow> Vec3f \<Rightarrow> Vec3f option" where
  "fragmentLightSpacePos vScreenCoords vLightSpacePos bar =
     (case vScreenCoords of (r0, r1, r2, r3) \<Rightarrow>
        (let w = dot3 r3 bar
         in if \<bar>w\<bar> < 1 / 10000000 then None
            else (let w = 1 / w in Some (scale3 (mulMat33 vLightSpacePos bar) w))))"

text \<open>
  The two loops of the filter. The state is \<open>(shadow, cntSample)\<close>; \<open>sampleX >= width\<close>
  compares after the test \<open>sampleX < 0\<close>, so the conversion to \<open>unsigned\<close> keeps the value;
  the index \<open>sampleY * width + sampleX\<close> is unsigned arithmetic.
\<close>

definition shadowIdx :: "32 word \<Rightarrow> int \<Rightarrow> int \<Rightarrow> nat" where
  "shadowIdx width sampleX sampleY = unat (word_of_int sampleY * width + word_of_int sampleX)"

definition pcfInner ::
  "Vec3f \<Rightarrow> (nat \<Rightarrow> real) \<Rightarrow> 32 word \<Rightarrow> 32 word \<Rightarrow> int \<Rightarrow> int \<Rightarrow> real \<times> int \<Rightarrow> real \<times> int" where
  "pcfInner lightSpacePos uShadowBuffer width height sampleX dy st =
     (let sampleY = float2int (y3 lightSpacePos + of_int dy)
      in if sampleY < 0 \<or> uint height \<le> sampleY then st
         else (let cnt = snd st + 1
               in if z3 lightSpacePos + 5 / 1000 < uShadowBuffer (shadowIdx width sampleX sampleY)
                  then (fst st + 1, cnt)
                  else (fst st, cnt)))"

definition pcfOuter ::
  "Vec3f \<Rightarrow> (nat \<Rightarrow> real) \<Rightarrow> 32 word \<Rightarrow> 32 word \<Rightarrow> int \<Rightarrow> real \<times> int \<Rightarrow> real \<times> int" where
  "pcfOuter lightSpacePos uShadowBuffer width height dx st =
     (let sampleX = float2int (x3 lightSpacePos + of_int dx)
      in if sampleX < 0 \<or> uint width \<le> sampleX then st
         else fold (pcfInner lightSpacePos uShadowBuffer width height sampleX) [- 2 .. 1] st)"

text \<open>
  \<open>shadow /= cntSample\<close>. With no sample in bounds the division is 0/0, which is not a number:
  \<open>None\<close>.
\<close>

definition shadowFactor :: "Vec3f \<Rightarrow> (nat \<Rightarrow> real) \<Rightarrow> 32 word \<Rightarrow> 32 word \<Rightarrow> real option" where
  "shadowFactor lightSpacePos uShadowBuffer width height =
     (let st = fold (pcfOuter lightSpacePos uShadowBuffer width height) [- 2 .. 1] (0, 0)
      in if snd st = 0 then None else Some (fst st / of_int (snd st)))"

text \<open>The shadow factor of a fragment: \<open>None\<close> when the fragment is discarded.\<close>

definition fragmentShadow ::
  "mat43 \<Rightarrow> mat33 \<Rightarrow> (nat \<Rightarrow> real) \<Rightarrow> 32 word \<Rightarrow> 32 word \<Rightarrow> Vec3f \<Rightarrow> real option option" where
  "fragmentShadow vScreenCoords vLightSpacePos uShadowBuffer width height bar =
     map_option (\<lambda>lightSpacePos. shadowFactor lightSpacePos uShadowBuffer width height)
       (fragmentLightSpacePos vScreenCoords vLightSpacePos bar)"

text \<open>
  The factor as a ratio: the 4-by-4 neighbourhood of offsets around the light-space position,
  its samples in bounds, and among those the share whose stored depth exceeds a threshold.
\<close>

definition neighbourhood :: "Vec3f \<Rightarrow> (int \<times> int) list" where
  "neighbourhood lightSpacePos =
     concat (map (\<lambda>dx. map (\<lambda>dy. (float2int (x3 lightSpacePos + of_int dx),
                                     float2int (y3 lightSpacePos + of_int dy)))
                           [- 2 .. 1])
                 [- 2 .. 1])"

definition inBounds :: "32 word \<Rightarrow> 32 word \<Rightarrow> int \<times> int \<Rightarrow> bool" where
  "inBounds width height s =
     (0 \<le> fst s \<and> fst s < uint width \<and> 0 \<le> snd s \<and> snd s < uint height)"

definition pcfRatio ::
  "real \<Rightarrow> Vec3f \<Rightarrow> (nat \<Rightarrow> real) \<Rightarrow> 32 word \<Rightarrow> 32 word \<Rightarrow> real option" where
  "pcfRatio threshold lightSpacePos uShadowBuffer width height =
     (let samples = filter (inBounds width height) (neighbourhood lightSpacePos);
          inShadow = filter (\<lambda>s. threshold < uShadowBuffer (shadowIdx width (fst s) (snd s)))
                       samples
      in if length samples = 0 then None
         else Some (of_nat (length inShadow) / of_nat (length samples)))"

section \<open>Constants and buffer set-up of main\<close>

definition SCREEN_WIDTH :: "32 word" where "SCREEN_WIDTH = 800"
definition SCREEN_HEIGHT :: "32 word" where "SCREEN_HEIGHT = 800"
definition SHADOW_WIDTH :: "32 word" where "SHADOW_WIDTH = 800"
definition SHADOW_HEIGHT :: "32 word" where "SHADOW_HEIGHT = 800"
definition CNT_SAMPLE :: "32 word" where "CNT_SAMPLE = 4"

definition D_MSAA :: "(real \<times> real) list" where
  "D_MSAA = [(1 / 4, 1 / 4), (1 / 4, 3 / 4), (3 / 4, 1 / 4), (3 / 4, 3 / 4)]"

definition D_NonMSAA :: "(real \<times> real) list" where
  "D_NonMSAA = [(0, 0)]"

text \<open>\<open>std::numeric_limits<float>::max()\<close>, the largest finite \<open>float\<close>: (2 - 2^-23) * 2^127.\<close>

definition FLT_MAX :: real where
  "FLT_MAX = 2 ^ 128 - 2 ^ 104"

text \<open>The four buffers \<open>main\<close> allocates, each the memory behind its pointer.\<close>

record mainBuffers =
  mainZBuffer :: "nat \<Rightarrow> real"
  mainColorBuffer :: "nat \<Rightarrow> Vec3f"
  shadowZBuffer :: "nat \<Rightarrow> real"
  shadowColorBuffer :: "nat \<Rightarrow> Vec3f"

text \<open>The initialisation loops of \<open>main\<close>, which run before either pass.\<close>

definition initIdx :: "nat \<Rightarrow> nat \<Rightarrow> nat" where
  "initIdx i j = unat (CNT_SAMPLE * word_of_nat i + word_of_nat j)"

definition initSample :: "nat \<Rightarrow> nat \<Rightarrow> mainBuffers \<Rightarrow> mainBuffers" where
  "initSample i j b =
     b\<lparr>mainZBuffer := (mainZBuffer b)(initIdx i j := - FLT_MAX),
       mainColorBuffer := (mainColorBuffer b)(initIdx i j := Vec3f 0 0 0)\<rparr>"

definition initPixel :: "nat \<Rightarrow> mainBuffers \<Rightarrow> mainBuffers" where
  "initPixel i b =
     (let b = fold (initSample i) [0 ..< unat CNT_SAMPLE] b
      in b\<lparr>shadowZBuffer := (shadowZBuffer b)(i := - FLT_MAX),
           shadowColorBuffer := (shadowColorBuffer b)(i := Vec3f 0 0 0)\<rparr>)"

definition initBuffers :: "mainBuffers \<Rightarrow> mainBuffers" where
  "initBuffers b = fold initPixel [0 ..< unat (SCREEN_WIDTH * SCREEN_HEIGHT)] b"

text \<open>
  \<open>writeFrame\<close> takes a sample for drawn when its depth is above the sentinel:
  \<open>zBuffer[...] > -std::numeric_limits<float>::max()\<close>.
\<close>

definition sampleDrawn :: "(nat \<Rightarrow> real) \<Rightarrow> nat \<Rightarrow> bool" where
  "sampleDrawn zb k = (zb k > - FLT_MAX)"

text \<open>
  Negative infinity, in the words of the specification, is below every finite \<open>float\<close>, the
  lowest of which is \<open>-FLT_MAX\<close>.
\<close>

definition belowEveryFloat :: "real \<Rightarrow> bool" where
  "belowEveryFloat r = (r < - FLT_MAX)"

text \<open>Freshly allocated memory, for closed examples.\<close>

definition freshBuffers :: mainBuffers where
  "freshBuffers = \<lparr>mainZBuffer = (\<lambda>k. 0), mainColorBuffer = (\<lambda>k. Vec3f 1 1 1),
                    shadowZBuffer = (\<lambda>k. 0), shadowColorBuffer = (\<lambda>k. Vec3f 1 1 1)\<rparr>"

text \<open>
  The centres of the four quadrants of the unit pixel whose centre is \<open>c\<close>, in the order of
  \<open>D_MSAA\<close>.
\<close>

definition quadrantCenters :: "Vec2f \<Rightarrow> Vec2f list" where
  "quadrantCenters c =
     [Vec2f (x2 c - 1 / 4) (y2 c - 1 / 4), Vec2f (x2 c - 1 / 4) (y2 c + 1 / 4),
      Vec2f (x2 c + 1 / 4) (y2 c - 1 / 4), Vec2f (x2 c + 1 / 4) (y2 c + 1 / 4)]"

section \<open>Square matrices\<close>

text \<open>
  \<open>mat<DimRows, DimCols, T>\<close> is an array of rows; \<open>m[i][j]\<close> is \<open>m i j\<close>, and the template
  arguments, the dimensions, are passed along. The loops that add up products run from the
  last index down; over exact arithmetic the order of a sum is immaterial and the model
  writes them as sums over the indices below the dimension.
\<close>

type_synonym mat = "nat \<Rightarrow> nat \<Rightarrow> real"

definition dotn :: "nat \<Rightarrow> (nat \<Rightarrow> real) \<Rightarrow> (nat \<Rightarrow> real) \<Rightarrow> real" where
  "dotn n lhs rhs = (\<Sum>i<n. lhs i * rhs i)"

definition get_minor :: "nat \<Rightarrow> nat \<Rightarrow> mat \<Rightarrow> mat" where
  "get_minor row col m = (\<lambda>i j. m (if i < row then i else i + 1) (if j < col then j else j + 1))"

text \<open>
  \<open>dt<DIM,T>::det\<close>: the expansion along the first row, with the specialisation \<open>dt<1,T>\<close>
  for one row. Each summand is \<open>src[0][i] * src.cofactor(0, i)\<close>. The general template is
  instantiated for two rows and more only: a matrix without rows is no type of the program
  (the cofactors of a one-row matrix do not compile), and the model says nothing of it.
\<close>

fun det :: "nat \<Rightarrow> mat \<Rightarrow> real" where
  "det (Suc 0) src = src 0 0"
| "det (Suc (Suc n)) src =
     (\<Sum>i<Suc (Suc n). src 0 i *
        (det (Suc n) (get_minor 0 i src) * (if (0 + i) mod 2 \<noteq> 0 then - 1 else 1)))"

definition cofactor :: "nat \<Rightarrow> nat \<Rightarrow> nat \<Rightarrow> mat \<Rightarrow> real" where
  "cofactor n row col m =
     det (n - 1) (get_minor row col m) * (if (row + col) mod 2 \<noteq> 0 then - 1 else 1)"

text \<open>\<open>adjugate\<close> fills \<open>ret[i][j] = cofactor(i, j)\<close>: the matrix of cofactors, not transposed.\<close>

definition adjugate :: "nat \<Rightarrow> mat \<Rightarrow> mat" where
  "adjugate n m = (\<lambda>i j. cofactor n i j m)"

text \<open>
  \<open>invert_transpose\<close> divides every cofactor by \<open>tmp = dot(ret[0], rows[0])\<close>, unguarded. With
  \<open>tmp = 0\<close> every entry is a \<open>float\<close> division by zero, an infinity or NaN, and the result
  is no matrix of numbers: \<open>None\<close>.
\<close>

definition invert_transpose :: "nat \<Rightarrow> mat \<Rightarrow> mat option" where
  "invert_transpose n m =
     (let ret = adjugate n m; tmp = dotn n (ret 0) (m 0)
      in if tmp = 0 then None else Some (\<lambda>i j. ret i j / tmp))"

definition transpose :: "mat \<Rightarrow> mat" where
  "transpose m = (\<lambda>i j. m j i)"

definition invert :: "nat \<Rightarrow> mat \<Rightarrow> mat option" where
  "invert n m = map_option transpose (invert_transpose n m)"

text \<open>\<open>operator*\<close> on matrices: \<open>result[i][j] = dot(lhs[i], rhs.col(j))\<close>.\<close>

definition mmul :: "nat \<Rightarrow> mat \<Rightarrow> mat \<Rightarrow> mat" where
  "mmul n lhs rhs = (\<lambda>i j. dotn n (lhs i) (\<lambda>k. rhs k j))"

definition identity :: mat where
  "identity = (\<lambda>i j. if i = j then 1 else 0)"

text \<open>Auxiliary notions for the proofs: the column a minor takes its column \<open>j\<close> from, its
  inverse on the columns other than \<open>k\<close>, the sign of a cofactor, and the exchange of two
  adjacent rows.\<close>

definition skipIdx :: "nat \<Rightarrow> nat \<Rightarrow> nat" where
  "skipIdx k j = (if j < k then j else j + 1)"

definition unskipIdx :: "nat \<Rightarrow> nat \<Rightarrow> nat" where
  "unskipIdx k m = (if m < k then m else m - 1)"

definition sg :: "nat \<Rightarrow> real" where
  "sg k = (if k mod 2 \<noteq> 0 then - 1 else 1)"

definition swapRows :: "nat \<Rightarrow> mat \<Rightarrow> mat" where
  "swapRows r m = (\<lambda>i. if i = r then m (r + 1) else if i = r + 1 then m r else m i)"

text \<open>Closed examples: matrices given by their rows.\<close>

definition ofRows :: "real list list \<Rightarrow> mat" where
  "ofRows rs = (\<lambda>i j. rs ! i ! j)"

text \<open>
  The weight of the pair of columns \<open>k\<close> (taken from row 0) and \<open>m\<close> (taken from row 1) when
  the determinant is expanded along its first two rows.
\<close>

definition pairWeight :: "nat \<Rightarrow> mat \<Rightarrow> nat \<Rightarrow> nat \<Rightarrow> real" where
  "pairWeight n M k m =
     sg k * sg (unskipIdx k m) * det n (get_minor 0 (unskipIdx k m) (get_minor 0 k M))"

text \<open>
  Two matrices the program inverts: the world transform of the floor model (the identity with
  \<open>[1][3] = -0.3\<close>), and a 2-by-2 matrix of UV differences.
\<close>

definition floorTrans :: mat where
  "floorTrans = ofRows [[1, 0, 0, 0], [0, 1, 0, - (3 / 10)], [0, 0, 1, 0], [0, 0, 0, 1]]"

definition uvMat :: mat where
  "uvMat = ofRows [[2, 1], [1, 1]]"

section \<open>Degenerate triangles\<close>

lemma baryDenom_cross:
  "z3 (cross (Vec3f (x2 B - x2 A) (x2 C - x2 A) (x2 A - x2 P))
             (Vec3f (y2 B - y2 A) (y2 C - y2 A) (y2 A - y2 P)))
   = (x2 B - x2 A) * (y2 C - y2 A) - (x2 C - x2 A) * (y2 B - y2 A)"
  by (simp add: cross_def)

lemma barycentric_degenerate:
  assumes "\<bar>(x2 B - x2 A) * (y2 C - y2 A) - (x2 C - x2 A) * (y2 B - y2 A)\<bar> < 1 / 100000"
  shows "barycentric A B C P = Vec3f (- 1) 0 0"
  using assms by (simp add: barycentric_def cross_def Let_def)

lemma baryOf_degenerate:
  "\<bar>baryDenom sc\<bar> < 1 / 100000 \<Longrightarrow> baryOf sc P = Vec3f (- 1) 0 0"
  by (cases sc) (simp add: baryOf_def baryDenom_def barycentric_degenerate proj2_def)

lemma sampleStep_degenerate:
  "\<bar>baryDenom sc\<bar> < 1 / 100000 \<Longrightarrow>
   sampleStep sc frag width d cntSample x y i st = Some st"
  by (simp add: sampleStep_def baryOf_degenerate Let_def)

lemma sampleLoop_degenerate:
  "\<bar>baryDenom sc\<bar> < 1 / 100000 \<Longrightarrow>
   sampleLoop sc frag width d cntSample x y ns st = st"
  by (induction ns) (simp_all add: sampleStep_degenerate)

lemma pixelStep_degenerate:
  "\<bar>baryDenom sc\<bar> < 1 / 100000 \<Longrightarrow>
   pixelStep sc frag width d cntSample ns p bufs = bufs"
  by (simp add: pixelStep_def sampleLoop_degenerate)

lemma rasterize_degenerate:
  "\<bar>baryDenom sc\<bar> < 1 / 100000 \<Longrightarrow>
   rasterize sc frag width d cntSample ord pxs bufs = bufs"
  unfolding rasterize_def by (induction pxs) (simp_all add: pixelStep_degenerate)

text \<open>
  Claim C6. When the denominator of \<open>barycentric\<close> is below the threshold in absolute value,
  every point gets the sentinel weights \<open>(-1, 0, 0)\<close>, and \<open>triangle\<close> returns both buffers
  as it received them, whatever the shader, the raster size and the sample table: the negative
  first weight makes every sample \<open>continue\<close>. The model is a total function, so the call
  returns.
\<close>

theorem degenerate_triangle_writes_nothing:
  assumes "\<bar>baryDenom sc\<bar> < 1 / 100000"
  shows "baryOf sc P = Vec3f (- 1) 0 0
         \<and> triangle sc frag cb zb width height d cntSample = (cb, zb)"
  using assms by (simp add: baryOf_degenerate triangle_def rasterize_degenerate)

theorem degenerate_triangle_writes_nothing_witness:
  "\<bar>baryDenom (Vec4f 0 0 (1 / 2) 1, Vec4f 1 1 (1 / 2) 1, Vec4f 2 2 (1 / 2) 1)\<bar> < 1 / 100000
   \<and> baryOf (Vec4f 0 0 (1 / 2) 1, Vec4f 1 1 (1 / 2) 1, Vec4f 2 2 (1 / 2) 1) (Vec2f 1 1)
       = Vec3f (- 1) 0 0
   \<and> triangle (Vec4f 0 0 (1 / 2) 1, Vec4f 1 1 (1 / 2) 1, Vec4f 2 2 (1 / 2) 1)
        whiteFrag blackMem zeroMem 4 4 D_NonMSAA 1 = (blackMem, zeroMem)"
proof -
  have h: "\<bar>baryDenom (Vec4f 0 0 (1 / 2) 1, Vec4f 1 1 (1 / 2) 1, Vec4f 2 2 (1 / 2) 1)\<bar>
           < 1 / 100000"
    by (simp add: baryDenom_def)
  show ?thesis
    using h degenerate_triangle_writes_nothing [OF h] by simp
qed

section \<open>The loops as one fold over the samples\<close>

lemma sampleLoop_covered:
  assumes "frag (baryOf sc (pixelCenter x y)) = Some col"
  shows "sampleLoop sc frag width d cntSample x y ns
           \<lparr>colorBuffer = cb, zBuffer = zb, covered = True, color = col\<rparr>
         = \<lparr>colorBuffer = fst (fold (slotUpdate sc frag width d cntSample) (map (Pair (x, y)) ns) (cb, zb)),
            zBuffer = snd (fold (slotUpdate sc frag width d cntSample) (map (Pair (x, y)) ns) (cb, zb)),
            covered = True, color = col\<rparr>"
  using assms
  by (induction ns arbitrary: cb zb)
     (simp_all add: sampleStep_def slotUpdate_def sampleAccepted_def Let_def)

lemma sampleLoop_uncovered_Some:
  assumes "frag (baryOf sc (pixelCenter x y)) = Some col"
  shows "(colorBuffer (sampleLoop sc frag width d cntSample x y ns
            \<lparr>colorBuffer = cb, zBuffer = zb, covered = False, color = cini\<rparr>),
          zBuffer (sampleLoop sc frag width d cntSample x y ns
            \<lparr>colorBuffer = cb, zBuffer = zb, covered = False, color = cini\<rparr>))
         = fold (slotUpdate sc frag width d cntSample) (map (Pair (x, y)) ns) (cb, zb)"
  using assms
  by (induction ns arbitrary: cb zb)
     (simp_all add: sampleStep_def slotUpdate_def sampleAccepted_def Let_def sampleLoop_covered)

lemma fold_slotUpdate_None:
  assumes "frag (baryOf sc (pixelCenter x y)) = None"
  shows "fold (slotUpdate sc frag width d cntSample) (map (Pair (x, y)) ns) bufs = bufs"
  using assms by (induction ns) (simp_all add: slotUpdate_def)

lemma sampleLoop_uncovered_None:
  assumes "frag (baryOf sc (pixelCenter x y)) = None"
  shows "sampleLoop sc frag width d cntSample x y ns
           \<lparr>colorBuffer = cb, zBuffer = zb, covered = False, color = cini\<rparr>
         = \<lparr>colorBuffer = cb, zBuffer = zb, covered = False, color = cini\<rparr>"
  using assms
  by (induction ns) (simp_all add: sampleStep_def Let_def)

lemma pixelStep_fold:
  "pixelStep sc frag width d cntSample ns p bufs
   = fold (slotUpdate sc frag width d cntSample) (map (Pair p) ns) bufs"
proof (cases p)
  case (Pair x y)
  show ?thesis
  proof (cases "frag (baryOf sc (pixelCenter x y))")
    case None
    then show ?thesis
      by (simp add: pixelStep_def Let_def Pair sampleLoop_uncovered_None fold_slotUpdate_None)
  next
    case (Some col)
    show ?thesis
      using sampleLoop_uncovered_Some[where frag=frag and sc=sc and x=x and y=y and cb="fst bufs"
              and zb="snd bufs" and cini="Vec3f 0 0 0" and width=width and d=d
              and cntSample=cntSample and ns=ns, OF Some]
      by (simp add: pixelStep_def Let_def Pair)
  qed
qed

lemma rasterize_fold:
  "rasterize sc frag width d cntSample ord pxs bufs
   = fold (slotUpdate sc frag width d cntSample)
       (concat (map (\<lambda>p. map (Pair p) (ord p)) pxs)) bufs"
  unfolding rasterize_def
  by (induction pxs arbitrary: bufs) (simp_all add: pixelStep_fold)

section \<open>Buffer indices\<close>

lemma bboxmin_nonneg: "0 \<le> fst (bboxmin sc width height) \<and> 0 \<le> snd (bboxmin sc width height)"
  by (cases sc) (simp add: bboxmin_def)

lemma bboxmax_le:
  "fst (bboxmax sc width height) \<le> sint (width - 1)
   \<and> snd (bboxmax sc width height) \<le> sint (height - 1)"
  by (cases sc) (simp add: bboxmax_def)

lemma bboxPixels_iff:
  "(x, y) \<in> set (bboxPixels sc width height) \<longleftrightarrow>
     fst (bboxmin sc width height) \<le> x \<and> x \<le> fst (bboxmax sc width height)
     \<and> snd (bboxmin sc width height) \<le> y \<and> y \<le> snd (bboxmax sc width height)"
  unfolding bboxPixels_def by (auto simp: image_iff)

lemma bboxPixels_range:
  assumes "(x, y) \<in> set (bboxPixels sc width height)"
  shows "0 \<le> x \<and> x \<le> sint (width - 1) \<and> 0 \<le> y \<and> y \<le> sint (height - 1)"
  using assms bboxmin_nonneg[of sc width height] bboxmax_le[of sc width height]
  unfolding bboxPixels_iff by linarith

lemma sint_pred_le:
  fixes w :: "32 word"
  shows "sint (w - 1) \<le> int (unat w) - 1"
proof (cases "w = 0")
  case True
  then show ?thesis by simp
next
  case False
  have "sint (w - 1) \<le> uint (w - 1)"
    unfolding sint_uint by (simp add: signed_take_bit_int_less_eq_self_iff order_trans[of _ 0])
  also have "uint (w - 1) = int (unat (w - 1))" by simp
  also have "\<dots> = int (unat w) - 1" using False
    by (simp add: unat_minus_one of_nat_diff unat_gt_0 Suc_leI)
  finally show ?thesis .
qed

lemma bboxPixels_in_raster:
  assumes "(x, y) \<in> set (bboxPixels sc width height)"
  shows "0 \<le> x \<and> nat x < unat width \<and> 0 \<le> y \<and> nat y < unat height"
  using bboxPixels_range[OF assms] sint_pred_le[of width] sint_pred_le[of height]
  by linarith

lemma unat_of_int_le:
  "0 \<le> x \<Longrightarrow> unat (word_of_int x :: 32 word) \<le> nat x"
  by (simp add: unat_eq_nat_uint uint_word_of_int nat_mono zmod_le_nonneg_dividend)

lemma sampleIdx_le:
  assumes "0 \<le> x" "0 \<le> y"
  shows "sampleIdx c w x y i \<le> unat c * (nat y * unat w + nat x) + i"
proof -
  have a: "unat (word_of_int y * w :: 32 word) \<le> nat y * unat w"
    unfolding unat_word_ariths
    by (rule order_trans[OF mod_less_eq_dividend]) (simp add: unat_of_int_le[OF assms(2)])
  have b: "unat (word_of_int y * w + word_of_int x :: 32 word) \<le> nat y * unat w + nat x"
    unfolding unat_word_ariths(1)
    by (rule order_trans[OF mod_less_eq_dividend]) (rule add_mono[OF a unat_of_int_le[OF assms(1)]])
  have c: "unat (c * (word_of_int y * w + word_of_int x) :: 32 word)
            \<le> unat c * (nat y * unat w + nat x)"
    unfolding unat_word_ariths(2)
    by (rule order_trans[OF mod_less_eq_dividend]) (rule mult_le_mono2[OF b])
  have d: "unat (word_of_nat i :: 32 word) \<le> i"
    by (simp add: unat_of_nat)
  show ?thesis
    unfolding sampleIdx_def unat_word_ariths(1)
    by (rule order_trans[OF mod_less_eq_dividend]) (rule add_mono[OF c d])
qed

lemma slot_bound:
  fixes X Y W H C i :: nat
  assumes "X < W" "Y < H" "i < C"
  shows "C * (Y * W + X) + i < W * H * C"
proof -
  have "Y * W + X < Y * W + W" using assms(1) by simp
  also have "\<dots> = Suc Y * W" by simp
  also have "\<dots> \<le> H * W" using assms(2) by (intro mult_le_mono1) simp
  finally have 1: "Suc (Y * W + X) \<le> H * W" by simp
  have "C * (Y * W + X) + i < C * (Y * W + X) + C" using assms(3) by simp
  also have "\<dots> = C * Suc (Y * W + X)" by simp
  also have "\<dots> \<le> C * (H * W)" using 1 by (rule mult_le_mono2)
  finally show ?thesis by (simp add: ac_simps)
qed



lemma fold_slotUpdate_frame:
  assumes "\<forall>s \<in> set ss. sampleIdx cntSample width (fst (fst s)) (snd (fst s)) (snd s) \<noteq> k"
  shows "fst (fold (slotUpdate sc frag width d cntSample) ss bufs) k = fst bufs k
         \<and> snd (fold (slotUpdate sc frag width d cntSample) ss bufs) k = snd bufs k"
  using assms
proof (induction ss arbitrary: bufs)
  case Nil
  show ?case by simp
next
  case (Cons s ss)
  have 1: "fst (slotUpdate sc frag width d cntSample s bufs) k = fst bufs k
           \<and> snd (slotUpdate sc frag width d cntSample s bufs) k = snd bufs k"
    using Cons.prems by (simp add: slotUpdate_def split: option.splits)
  have 2: "\<forall>s \<in> set ss. sampleIdx cntSample width (fst (fst s)) (snd (fst s)) (snd s) \<noteq> k"
    using Cons.prems by simp
  show ?case using Cons.IH[OF 2, of "slotUpdate sc frag width d cntSample s bufs"] 1 by simp
qed

lemma sampleIdx_bound:
  assumes "(x, y) \<in> set (bboxPixels sc width height)" "i < unat cntSample"
  shows "sampleIdx cntSample width x y i < unat width * unat height * unat cntSample"
proof -
  note r = bboxPixels_in_raster[OF assms(1)]
  have "sampleIdx cntSample width x y i \<le> unat cntSample * (nat y * unat width + nat x) + i"
    using r by (intro sampleIdx_le) simp_all
  also have "\<dots> < unat width * unat height * unat cntSample"
    using r assms(2) by (intro slot_bound) simp_all
  finally show ?thesis .
qed

lemma triangle_frame:
  assumes "unat width * unat height * unat cntSample \<le> k"
  shows "fst (triangle sc frag cb zb width height d cntSample) k = cb k
         \<and> snd (triangle sc frag cb zb width height d cntSample) k = zb k"
proof -
  have "\<forall>s \<in> set (concat (map (\<lambda>p. map (Pair p) [0 ..< unat cntSample])
                               (bboxPixels sc width height))).
          sampleIdx cntSample width (fst (fst s)) (snd (fst s)) (snd s) \<noteq> k"
  proof
    fix s
    assume "s \<in> set (concat (map (\<lambda>p. map (Pair p) [0 ..< unat cntSample])
                               (bboxPixels sc width height)))"
    then have "(fst (fst s), snd (fst s)) \<in> set (bboxPixels sc width height)"
      and "snd s < unat cntSample"
      by auto
    then have "sampleIdx cntSample width (fst (fst s)) (snd (fst s)) (snd s)
               < unat width * unat height * unat cntSample"
      by (rule sampleIdx_bound)
    then show "sampleIdx cntSample width (fst (fst s)) (snd (fst s)) (snd s) \<noteq> k"
      using assms by simp
  qed
  from fold_slotUpdate_frame[OF this, of sc frag d "(cb, zb)"]
  show ?thesis unfolding triangle_def rasterize_fold by simp
qed

text \<open>
  Claim C10. Every index the loops of \<open>triangle\<close> compute, for a pixel of the clamped bounding
  box and a sample number below \<open>cntSample\<close>, is below \<open>width * height * cntSample\<close>, whatever
  the vertex coordinates and the raster size (an empty raster has no pixel); and \<open>triangle\<close>
  leaves every slot from \<open>width * height * cntSample\<close> on as it was.
\<close>

theorem triangle_indices_in_bounds:
  "(\<forall>(x, y) \<in> set (bboxPixels sc width height). \<forall>i < unat cntSample.
      sampleIdx cntSample width x y i < unat width * unat height * unat cntSample)
   \<and> (\<forall>k. unat width * unat height * unat cntSample \<le> k \<longrightarrow>
         fst (triangle sc frag cb zb width height d cntSample) k = cb k
         \<and> snd (triangle sc frag cb zb width height d cntSample) k = zb k)"
  using sampleIdx_bound triangle_frame by blast

lemma offTri_pixel: "(3, 3) \<in> set (bboxPixels offTri 4 4)"
proof -
  have f: "float2int (- 5) = - 5" "float2int 10 = 10" "float2int 2 = 2"
    by (simp_all add: float2int_def)
  have a: "bboxmin offTri 4 4 = (0, 0)"
    by (simp add: bboxmin_def offTri_def f)
  have b: "bboxmax offTri 4 4 = (3, 3)"
    by (simp add: bboxmax_def offTri_def f)
  show ?thesis by (simp add: bboxPixels_iff a b)
qed

theorem triangle_indices_in_bounds_witness:
  "(3, 3) \<in> set (bboxPixels offTri 4 4) \<and> 3 < unat (4::32 word)
   \<and> sampleIdx 4 4 3 3 3 < unat (4::32 word) * unat (4::32 word) * unat (4::32 word)
   \<and> unat (4::32 word) * unat (4::32 word) * unat (4::32 word) \<le> 64
   \<and> fst (triangle offTri whiteFrag blackMem halfMem 4 4 D_MSAA 4) 64 = blackMem 64
   \<and> snd (triangle offTri whiteFrag blackMem halfMem 4 4 D_MSAA 4) 64 = halfMem 64"
proof -
  have i: "3 < unat (4::32 word)" by simp
  have k: "unat (4::32 word) * unat (4::32 word) * unat (4::32 word) \<le> 64" by simp
  note t = triangle_indices_in_bounds [of offTri 4 4 4 whiteFrag blackMem halfMem D_MSAA]
  have 1: "sampleIdx 4 4 3 3 3 < unat (4::32 word) * unat (4::32 word) * unat (4::32 word)"
    using t offTri_pixel i by blast
  have 2: "fst (triangle offTri whiteFrag blackMem halfMem 4 4 D_MSAA 4) 64 = blackMem 64
           \<and> snd (triangle offTri whiteFrag blackMem halfMem 4 4 D_MSAA 4) 64 = halfMem 64"
    using t k by blast
  show ?thesis using offTri_pixel i k 1 2 by blast
qed

section \<open>Traversal order\<close>

lemma unat_word_of_int_small:
  assumes "0 \<le> x" "nat x < 2 ^ 32"
  shows "unat (word_of_int x :: 32 word) = nat x"
proof -
  have "x mod 4294967296 = x" using assms by (intro mod_pos_pos_trivial) simp_all
  then show ?thesis by (simp add: unat_eq_nat_uint uint_word_of_int)
qed

lemma sampleIdx_exact:
  fixes h :: "32 word"
  assumes "0 \<le> x" "nat x < unat w" "0 \<le> y" "nat y < unat h" "i < unat c"
    and nowrap: "unat w * unat h * unat c \<le> 2 ^ 32"
  shows "sampleIdx c w x y i = unat c * (nat y * unat w + nat x) + i"
proof -
  let ?N = "unat c * (nat y * unat w + nat x) + i"
  have N: "?N < 2 ^ 32"
    using slot_bound[OF assms(2) assms(4) assms(5)] nowrap by linarith
  have c1: "1 \<le> unat c" using assms(5) by simp
  have in1: "nat y * unat w + nat x \<le> unat c * (nat y * unat w + nat x)"
    using c1 by simp
  have M: "nat y * unat w + nat x < 2 ^ 32" using N in1 by linarith
  have P: "unat c * (nat y * unat w + nat x) < 2 ^ 32" using N by linarith
  have YW: "nat y * unat w < 2 ^ 32" using M by linarith
  have X: "nat x < 2 ^ 32" using M by linarith
  have "unat h < 2 ^ 32" by (rule order_less_le_trans[OF unsigned_less]) simp
  then have Y: "nat y < 2 ^ 32" using assms(4) by linarith
  have I: "i < 2 ^ 32" using N by linarith
  have a: "unat (word_of_int y * w :: 32 word) = nat y * unat w"
    using YW by (simp add: unat_word_ariths unat_word_of_int_small[OF assms(3) Y])
  have b: "unat (word_of_int y * w + word_of_int x :: 32 word) = nat y * unat w + nat x"
    using M by (simp add: unat_word_ariths(1) a unat_word_of_int_small[OF assms(1) X])
  have c: "unat (c * (word_of_int y * w + word_of_int x) :: 32 word)
           = unat c * (nat y * unat w + nat x)"
    using P by (simp add: unat_word_ariths(2) b)
  have d: "unat (word_of_nat i :: 32 word) = i" using I by (simp add: unat_of_nat)
  show ?thesis
    unfolding sampleIdx_def using N by (simp add: unat_word_ariths(1) c d)
qed

lemma slot_inj:
  fixes X Y W C i X' Y' i' :: nat
  assumes "X < W" "X' < W" "i < C" "i' < C"
    and "C * (Y * W + X) + i = C * (Y' * W + X') + i'"
  shows "X = X' \<and> Y = Y' \<and> i = i'"
proof -
  have "(C * (Y * W + X) + i) div C = Y * W + X" using assms(3) by simp
  moreover have "(C * (Y' * W + X') + i') div C = Y' * W + X'" using assms(4) by simp
  ultimately have n: "Y * W + X = Y' * W + X'" using assms(5) by simp
  have "(C * (Y * W + X) + i) mod C = i" using assms(3) by simp
  moreover have "(C * (Y' * W + X') + i') mod C = i'" using assms(4) by simp
  ultimately have i: "i = i'" using assms(5) by simp
  have "(Y * W + X) div W = Y" "(Y' * W + X') div W = Y'" using assms(1,2) by simp_all
  then have y: "Y = Y'" using n by simp
  have "(Y * W + X) mod W = X" "(Y' * W + X') mod W = X'" using assms(1,2) by simp_all
  then have x: "X = X'" using n by simp
  show ?thesis using x y i by simp
qed

lemma sampleIdx_inj:
  assumes "(x, y) \<in> set (bboxPixels sc width height)" "i < unat cntSample"
    and "(x', y') \<in> set (bboxPixels sc width height)" "i' < unat cntSample"
    and nowrap: "unat width * unat height * unat cntSample \<le> 2 ^ 32"
    and eq: "sampleIdx cntSample width x y i = sampleIdx cntSample width x' y' i'"
  shows "x = x' \<and> y = y' \<and> i = i'"
proof -
  note r = bboxPixels_in_raster[OF assms(1)]
  note r' = bboxPixels_in_raster[OF assms(3)]
  have e: "sampleIdx cntSample width x y i
           = unat cntSample * (nat y * unat width + nat x) + i"
    using r assms(2) nowrap by (intro sampleIdx_exact[where h=height]) simp_all
  have e': "sampleIdx cntSample width x' y' i'
           = unat cntSample * (nat y' * unat width + nat x') + i'"
    using r' assms(4) nowrap by (intro sampleIdx_exact[where h=height]) simp_all
  have "nat x = nat x' \<and> nat y = nat y' \<and> i = i'"
    using r r' assms(2,4) eq unfolding e e' by (intro slot_inj[where W="unat width" and C="unat cntSample"]) simp_all
  then show ?thesis using r r' by arith
qed

lemma slotUpdate_commute:
  assumes "sampleIdx cntSample width (fst (fst s)) (snd (fst s)) (snd s)
           \<noteq> sampleIdx cntSample width (fst (fst t)) (snd (fst t)) (snd t)"
  shows "slotUpdate sc frag width d cntSample s \<circ> slotUpdate sc frag width d cntSample t
         = slotUpdate sc frag width d cntSample t \<circ> slotUpdate sc frag width d cntSample s"
proof (rule ext)
  fix bufs
  show "(slotUpdate sc frag width d cntSample s \<circ> slotUpdate sc frag width d cntSample t) bufs
        = (slotUpdate sc frag width d cntSample t \<circ> slotUpdate sc frag width d cntSample s) bufs"
    using assms
    by (auto simp: slotUpdate_def sampleAccepted_def Let_def fun_upd_twist split: option.splits)
qed

lemma mset_slotsOf:
  "mset (slotsOf ord pxs) = (\<Sum>p\<in>#mset pxs. image_mset (Pair p) (mset (ord p)))"
  unfolding slotsOf_def by (induction pxs) simp_all

lemma sampleRun_slotUpdate:
  "sampleRun sc frag width d cntSample = slotUpdate sc frag width d cntSample"
  by (rule ext, rule ext) (simp add: sampleRun_def pixelStep_fold)

lemma canonical_slots_inj:
  assumes nowrap: "unat width * unat height * unat cntSample \<le> 2 ^ 32"
    and s: "s \<in> set (slotsOf (\<lambda>p. [0 ..< unat cntSample]) (bboxPixels sc width height))"
    and t: "t \<in> set (slotsOf (\<lambda>p. [0 ..< unat cntSample]) (bboxPixels sc width height))"
    and ne: "s \<noteq> t"
  shows "sampleIdx cntSample width (fst (fst s)) (snd (fst s)) (snd s)
         \<noteq> sampleIdx cntSample width (fst (fst t)) (snd (fst t)) (snd t)"
proof
  assume e: "sampleIdx cntSample width (fst (fst s)) (snd (fst s)) (snd s)
           = sampleIdx cntSample width (fst (fst t)) (snd (fst t)) (snd t)"
  have sp: "(fst (fst s), snd (fst s)) \<in> set (bboxPixels sc width height)"
    and si: "snd s < unat cntSample"
    using s unfolding slotsOf_def by auto
  have tp: "(fst (fst t), snd (fst t)) \<in> set (bboxPixels sc width height)"
    and ti: "snd t < unat cntSample"
    using t unfolding slotsOf_def by auto
  have "fst (fst s) = fst (fst t) \<and> snd (fst s) = snd (fst t) \<and> snd s = snd t"
    using e by (intro sampleIdx_inj[OF sp si tp ti nowrap]) simp
  then have "s = t" by (simp add: prod_eq_iff)
  with ne show False by simp
qed

lemma canonical_slots_commute:
  assumes nowrap: "unat width * unat height * unat cntSample \<le> 2 ^ 32"
    and s: "s \<in> set (slotsOf (\<lambda>p. [0 ..< unat cntSample]) (bboxPixels sc width height))"
    and t: "t \<in> set (slotsOf (\<lambda>p. [0 ..< unat cntSample]) (bboxPixels sc width height))"
  shows "slotUpdate sc frag width d cntSample s \<circ> slotUpdate sc frag width d cntSample t
         = slotUpdate sc frag width d cntSample t \<circ> slotUpdate sc frag width d cntSample s"
proof (cases "s = t")
  case True
  then show ?thesis by simp
next
  case False
  show ?thesis
    by (rule slotUpdate_commute) (rule canonical_slots_inj[OF nowrap s t False])
qed

lemma permuted_slots:
  assumes nowrap: "unat width * unat height * unat cntSample \<le> 2 ^ 32"
    and m: "mset ss = mset (slotsOf (\<lambda>p. [0 ..< unat cntSample]) (bboxPixels sc width height))"
  shows "fold (slotUpdate sc frag width d cntSample) ss (cb, zb)
         = triangle sc frag cb zb width height d cntSample"
proof -
  let ?can = "slotsOf (\<lambda>p. [0 ..< unat cntSample]) (bboxPixels sc width height)"
  have "fold (slotUpdate sc frag width d cntSample) ?can
        = fold (slotUpdate sc frag width d cntSample) ss"
    using canonical_slots_commute[OF nowrap] m[symmetric] by (rule fold_multiset_equiv)
  then show ?thesis
    unfolding triangle_def rasterize_fold slotsOf_def by simp
qed

lemma f2i0: "float2int 0 = 0" by (simp add: float2int_def)
lemma f2i4: "float2int 4 = 4" by (simp add: float2int_def)

lemma thin_sample:
  "baryOf thinTri (samplePoint D_NonMSAA 0 y 0) = Vec3f (1 - of_int y / 4) 0 (of_int y / 4)"
  by (simp add: thinTri_def baryOf_def barycentric_def proj2_def cross_def Let_def
        samplePoint_def D_NonMSAA_def)

lemma thin_center:
  "baryOf thinTri (pixelCenter 0 y)
   = Vec3f (- ((of_int y + 1 / 2) / 4)) 1 ((of_int y + 1 / 2) / 4)"
  by (simp add: thinTri_def baryOf_def barycentric_def proj2_def cross_def Let_def
        pixelCenter_def field_simps)

lemma thin_depth: "sampleDepth thinTri (Vec3f (1 - a) 0 a) = 1 / 2"
  by (simp add: thinTri_def sampleDepth_def Let_def diff_divide_distrib)

lemma big_idx:
  "sampleIdx 1 bigWidth 0 0 0 = 0" "sampleIdx 1 bigWidth 0 1 0 = 2147483648"
  "sampleIdx 1 bigWidth 0 2 0 = 0"
  by (simp_all add: sampleIdx_def bigWidth_def)

lemma thin_pixels: "bboxPixels thinTri bigWidth 3 = [(0, 0), (0, 1), (0, 2)]"
proof -
  have f: "float2int (1 / 2) = 0" by (simp add: float2int_def)
  have s: "sint (bigWidth - 1) = 2147483647" by (simp add: bigWidth_def)
  have a: "bboxmin thinTri bigWidth 3 = (0, 0)"
    by (simp add: bboxmin_def thinTri_def f2i0 f2i4 f s)
  have b: "bboxmax thinTri bigWidth 3 = (0, 2)"
    by (simp add: bboxmax_def thinTri_def f2i0 f2i4 f s)
  have c: "[0 .. 2::int] = [0, 1, 2]" by (simp add: upto.simps)
  show ?thesis by (simp add: bboxPixels_def a b c)
qed

lemma thin_update:
  "slotUpdate thinTri weightFrag bigWidth D_NonMSAA 1 ((0, y), 0) bufs
   = (if 0 \<le> y \<and> y \<le> 4 \<and> snd bufs (sampleIdx 1 bigWidth 0 y 0) \<le> 1 / 2
      then ((fst bufs)(sampleIdx 1 bigWidth 0 y 0 :=
               Vec3f (- ((of_int y + 1 / 2) / 4)) 1 ((of_int y + 1 / 2) / 4)),
            (snd bufs)(sampleIdx 1 bigWidth 0 y 0 := 1 / 2))
      else bufs)"
  by (auto simp: slotUpdate_def sampleAccepted_def Let_def thin_sample thin_center thin_depth
        weightFrag_def)


text \<open>
  Claim C3, as stated, on a raster whose index wraps. With \<open>width = 2^31\<close>, \<open>height = 3\<close> and one
  sample per pixel the pixels (0, 0) and (0, 2) of the bounding box of \<open>thinTri\<close> have the same
  slot 0, since the \<open>unsigned\<close> product \<open>2 * 2^31\<close> is 0; both samples have the depth 1/2, and
  the later one overwrites the earlier one. \<open>triangle\<close> visits (0, 0) before (0, 2) and leaves
  the colour of pixel (0, 2) in slot 0; the traversal of the same pixels in the reversed order
  leaves the colour of pixel (0, 0) there.
\<close>

theorem shared_slot_depends_on_order:
  "2 ^ 32 < unat bigWidth * unat (3::32 word) * unat (1::32 word)
   \<and> mset [(0, 2), (0, 1), (0, 0)] = mset (bboxPixels thinTri bigWidth 3)
   \<and> sampleIdx 1 bigWidth 0 0 0 = sampleIdx 1 bigWidth 0 2 0
   \<and> fst (rasterize thinTri weightFrag bigWidth D_NonMSAA 1 (\<lambda>p. [0 ..< unat (1::32 word)])
            [(0, 2), (0, 1), (0, 0)] (blackMem, zeroMem)) 0
       = Vec3f (- (1 / 8)) 1 (1 / 8)
   \<and> fst (triangle thinTri weightFrag blackMem zeroMem bigWidth 3 D_NonMSAA 1) 0
       = Vec3f (- (5 / 8)) 1 (5 / 8)
   \<and> rasterize thinTri weightFrag bigWidth D_NonMSAA 1 (\<lambda>p. [0 ..< unat (1::32 word)])
        [(0, 2), (0, 1), (0, 0)] (blackMem, zeroMem)
       \<noteq> triangle thinTri weightFrag blackMem zeroMem bigWidth 3 D_NonMSAA 1"
proof -
  have n: "2 ^ 32 < unat bigWidth * unat (3::32 word) * unat (1::32 word)"
    by (simp add: bigWidth_def)
  have p: "mset [(0, 2), (0, 1), (0, 0)] = mset (bboxPixels thinTri bigWidth 3)"
    by (simp add: thin_pixels)
  have u: "[0 ..< unat (1::32 word)] = [0]" by simp
  have r: "fst (rasterize thinTri weightFrag bigWidth D_NonMSAA 1 (\<lambda>p. [0 ..< unat (1::32 word)])
            [(0, 2), (0, 1), (0, 0)] (blackMem, zeroMem)) 0
       = Vec3f (- (1 / 8)) 1 (1 / 8)"
    unfolding rasterize_fold u
    by (simp add: thin_update big_idx zeroMem_def)
  have t: "fst (triangle thinTri weightFrag blackMem zeroMem bigWidth 3 D_NonMSAA 1) 0
       = Vec3f (- (5 / 8)) 1 (5 / 8)"
    unfolding triangle_def rasterize_fold u thin_pixels
    by (simp add: thin_update big_idx zeroMem_def)
  have d: "rasterize thinTri weightFrag bigWidth D_NonMSAA 1 (\<lambda>p. [0 ..< unat (1::32 word)])
        [(0, 2), (0, 1), (0, 0)] (blackMem, zeroMem)
       \<noteq> triangle thinTri weightFrag blackMem zeroMem bigWidth 3 D_NonMSAA 1"
  proof
    assume "rasterize thinTri weightFrag bigWidth D_NonMSAA 1 (\<lambda>p. [0 ..< unat (1::32 word)])
        [(0, 2), (0, 1), (0, 0)] (blackMem, zeroMem)
       = triangle thinTri weightFrag blackMem zeroMem bigWidth 3 D_NonMSAA 1"
    then have "Vec3f (- (1 / 8)) 1 (1 / 8) = Vec3f (- (5 / 8)) 1 (5 / 8 :: real)"
      using r t by simp
    then show False by simp
  qed
  show ?thesis using n p r t d by (simp add: big_idx)
qed

text \<open>
  Claim C3, amended. On a raster whose buffer length \<open>width * height * cntSample\<close> fits the
  \<open>unsigned\<close> index, that is, is at most \<open>2^32\<close>, distinct samples have distinct slots, and:
  (1) any traversal that visits the pixels of the bounding box in some order \<open>pxs\<close>, and the
  samples of each pixel \<open>p\<close> in some order \<open>ord p\<close>, leaves the colour and depth buffers that
  \<open>triangle\<close> leaves;
  (2) any permutation \<open>ss\<close> of the samples \<open>triangle\<close> visits, run sample by sample, leaves the
  colour and depth buffers that \<open>triangle\<close> leaves;
  (3) the runs of any two samples \<open>triangle\<close> visits commute, from any buffers.
  The shader is a function of the weights.
\<close>

theorem triangle_order_independent:
  assumes nowrap: "unat width * unat height * unat cntSample \<le> 2 ^ 32"
    and pxs: "mset pxs = mset (bboxPixels sc width height)"
    and ord: "\<forall>p. mset (ord p) = mset [0 ..< unat cntSample]"
  shows "rasterize sc frag width d cntSample ord pxs (cb, zb)
         = triangle sc frag cb zb width height d cntSample
   \<and> (\<forall>ss. mset ss = mset (slotsOf (\<lambda>p. [0 ..< unat cntSample]) (bboxPixels sc width height))
        \<longrightarrow> fold (sampleRun sc frag width d cntSample) ss (cb, zb)
            = triangle sc frag cb zb width height d cntSample)
   \<and> (\<forall>s \<in> set (slotsOf (\<lambda>p. [0 ..< unat cntSample]) (bboxPixels sc width height)).
       \<forall>t \<in> set (slotsOf (\<lambda>p. [0 ..< unat cntSample]) (bboxPixels sc width height)).
       \<forall>bufs. sampleRun sc frag width d cntSample s (sampleRun sc frag width d cntSample t bufs)
             = sampleRun sc frag width d cntSample t (sampleRun sc frag width d cntSample s bufs))"
proof (intro conjI allI impI ballI)
  have m: "mset (slotsOf ord pxs)
           = mset (slotsOf (\<lambda>p. [0 ..< unat cntSample]) (bboxPixels sc width height))"
    unfolding mset_slotsOf pxs by (simp only: ord[rule_format])
  show "rasterize sc frag width d cntSample ord pxs (cb, zb)
        = triangle sc frag cb zb width height d cntSample"
    using permuted_slots[OF nowrap m] unfolding rasterize_fold slotsOf_def .
next
  fix ss
  assume "mset ss = mset (slotsOf (\<lambda>p. [0 ..< unat cntSample]) (bboxPixels sc width height))"
  then show "fold (sampleRun sc frag width d cntSample) ss (cb, zb)
             = triangle sc frag cb zb width height d cntSample"
    unfolding sampleRun_slotUpdate by (rule permuted_slots[OF nowrap])
next
  fix s t bufs
  assume s: "s \<in> set (slotsOf (\<lambda>p. [0 ..< unat cntSample]) (bboxPixels sc width height))"
    and t: "t \<in> set (slotsOf (\<lambda>p. [0 ..< unat cntSample]) (bboxPixels sc width height))"
  from fun_cong[OF canonical_slots_commute[OF nowrap s t, of frag d], of bufs]
  show "sampleRun sc frag width d cntSample s (sampleRun sc frag width d cntSample t bufs)
        = sampleRun sc frag width d cntSample t (sampleRun sc frag width d cntSample s bufs)"
    unfolding sampleRun_slotUpdate by simp
qed


lemma flat_pixels21: "bboxPixels flatTri 2 1 = [(0, 0), (1, 0)]"
proof -
  have a: "bboxmin flatTri 2 1 = (0, 0)"
    by (simp add: bboxmin_def flatTri_def f2i0 f2i4)
  have b: "bboxmax flatTri 2 1 = (1, 0)"
    by (simp add: bboxmax_def flatTri_def f2i0 f2i4)
  have c: "[0 .. 1::int] = [0, 1]" by (simp add: upto.simps)
  show ?thesis by (simp add: bboxPixels_def a b c)
qed

lemma flat_slots21:
  "slotsOf (\<lambda>p. [0 ..< unat (2::32 word)]) (bboxPixels flatTri 2 1)
   = [((0, 0), 0), ((0, 0), 1), ((1, 0), 0), ((1, 0), 1)]"
  by (simp add: slotsOf_def flat_pixels21 upt_rec)

theorem triangle_order_independent_witness:
  "unat (2::32 word) * unat (1::32 word) * unat (2::32 word) \<le> 2 ^ 32
   \<and> mset [(1, 0), (0, 0)] = mset (bboxPixels flatTri 2 1)
   \<and> (\<forall>p::int \<times> int. mset [1, 0] = mset [0 ..< unat (2::32 word)])
   \<and> rasterize flatTri whiteFrag 2 D_MSAA 2 (\<lambda>p. [1, 0]) [(1, 0), (0, 0)] (blackMem, halfMem)
       = triangle flatTri whiteFrag blackMem halfMem 2 1 D_MSAA 2
   \<and> mset [((1, 0), 1), ((0, 0), 0), ((1, 0), 0), ((0, 0), 1)]
       = mset (slotsOf (\<lambda>p. [0 ..< unat (2::32 word)]) (bboxPixels flatTri 2 1))
   \<and> fold (sampleRun flatTri whiteFrag 2 D_MSAA 2)
        [((1, 0), 1), ((0, 0), 0), ((1, 0), 0), ((0, 0), 1)] (blackMem, halfMem)
       = triangle flatTri whiteFrag blackMem halfMem 2 1 D_MSAA 2
   \<and> ((1, 0), 1) \<in> set (slotsOf (\<lambda>p. [0 ..< unat (2::32 word)]) (bboxPixels flatTri 2 1))
   \<and> ((0, 0), 0) \<in> set (slotsOf (\<lambda>p. [0 ..< unat (2::32 word)]) (bboxPixels flatTri 2 1))
   \<and> sampleRun flatTri whiteFrag 2 D_MSAA 2 ((1, 0), 1)
        (sampleRun flatTri whiteFrag 2 D_MSAA 2 ((0, 0), 0) (blackMem, halfMem))
       = sampleRun flatTri whiteFrag 2 D_MSAA 2 ((0, 0), 0)
           (sampleRun flatTri whiteFrag 2 D_MSAA 2 ((1, 0), 1) (blackMem, halfMem))"
proof -
  have n: "unat (2::32 word) * unat (1::32 word) * unat (2::32 word) \<le> 2 ^ 32" by simp
  have p: "mset [(1, 0), (0, 0)] = mset (bboxPixels flatTri 2 1)"
    by (simp add: flat_pixels21)
  have u: "[0 ..< unat (2::32 word)] = [0, 1]" by (simp add: upt_rec)
  have o: "\<forall>p::int \<times> int. mset ((\<lambda>p. [1, 0]) p) = mset [0 ..< unat (2::32 word)]"
    unfolding u by simp
  note t = triangle_order_independent [OF n p o, where frag=whiteFrag and d=D_MSAA
             and cb=blackMem and zb=halfMem]
  have m: "mset [((1, 0), 1), ((0, 0), 0), ((1, 0), 0), ((0, 0), 1)]
       = mset (slotsOf (\<lambda>p. [0 ..< unat (2::32 word)]) (bboxPixels flatTri 2 1))"
    unfolding flat_slots21 by simp
  have s1: "((1, 0), 1) \<in> set (slotsOf (\<lambda>p. [0 ..< unat (2::32 word)]) (bboxPixels flatTri 2 1))"
    and s2: "((0, 0), 0) \<in> set (slotsOf (\<lambda>p. [0 ..< unat (2::32 word)]) (bboxPixels flatTri 2 1))"
    unfolding flat_slots21 by simp_all
  have a: "rasterize flatTri whiteFrag 2 D_MSAA 2 (\<lambda>p. [1, 0]) [(1, 0), (0, 0)] (blackMem, halfMem)
        = triangle flatTri whiteFrag blackMem halfMem 2 1 D_MSAA 2"
    using t by (rule conjunct1)
  have b: "fold (sampleRun flatTri whiteFrag 2 D_MSAA 2)
        [((1, 0), 1), ((0, 0), 0), ((1, 0), 0), ((0, 0), 1)] (blackMem, halfMem)
       = triangle flatTri whiteFrag blackMem halfMem 2 1 D_MSAA 2"
    using t[THEN conjunct2, THEN conjunct1] m by blast
  have c: "sampleRun flatTri whiteFrag 2 D_MSAA 2 ((1, 0), 1)
        (sampleRun flatTri whiteFrag 2 D_MSAA 2 ((0, 0), 0) (blackMem, halfMem))
       = sampleRun flatTri whiteFrag 2 D_MSAA 2 ((0, 0), 0)
           (sampleRun flatTri whiteFrag 2 D_MSAA 2 ((1, 0), 1) (blackMem, halfMem))"
    using t[THEN conjunct2, THEN conjunct2] s1 s2 by blast
  show ?thesis using n p o a m b s1 s2 c by simp
qed

section \<open>The depth test\<close>

lemma slotUpdate_mono: "snd bufs k \<le> snd (slotUpdate sc frag width d cntSample s bufs) k"
  by (auto simp: slotUpdate_def sampleAccepted_def Let_def split: option.splits)

lemma fold_slotUpdate_mono:
  "snd bufs k \<le> snd (fold (slotUpdate sc frag width d cntSample) ss bufs) k"
proof (induction ss arbitrary: bufs)
  case Nil
  show ?case by simp
next
  case (Cons s ss)
  have "snd bufs k \<le> snd (slotUpdate sc frag width d cntSample s bufs) k"
    by (rule slotUpdate_mono)
  also have "\<dots> \<le> snd (fold (slotUpdate sc frag width d cntSample) ss
                        (slotUpdate sc frag width d cntSample s bufs)) k"
    by (rule Cons.IH)
  finally show ?case by simp
qed

lemma triangle_depth_mono:
  "zb k \<le> snd (triangle sc frag cb zb width height d cntSample) k"
  unfolding triangle_def rasterize_fold
  using fold_slotUpdate_mono[where bufs="(cb, zb)"] by simp

lemma sampleStep_changed:
  assumes "sampleStep sc frag width d cntSample x y i st = Some st'"
    and "colorBuffer st' k \<noteq> colorBuffer st k \<or> zBuffer st' k \<noteq> zBuffer st k"
  shows "k = sampleIdx cntSample width x y i
         \<and> sampleAccepted sc width d cntSample (zBuffer st) x y i
         \<and> zBuffer st' k = sampleDepth sc (baryOf sc (samplePoint d x y i))"
  using assms
  by (auto simp: sampleStep_def sampleAccepted_def Let_def split: if_splits option.splits)

lemma barycentric_sum:
  assumes "0 \<le> x3 (barycentric A B C P)"
  shows "x3 (barycentric A B C P) + y3 (barycentric A B C P) + z3 (barycentric A B C P) = 1"
proof -
  let ?u = "cross (Vec3f (x2 B - x2 A) (x2 C - x2 A) (x2 A - x2 P))
                  (Vec3f (y2 B - y2 A) (y2 C - y2 A) (y2 A - y2 P))"
  have n: "\<not> \<bar>z3 ?u\<bar> < 1 / 100000"
    using assms by (auto simp: barycentric_def Let_def split: if_splits)
  then have "z3 ?u \<noteq> 0" by auto
  then show ?thesis
    using n by (simp add: barycentric_def Let_def add_divide_distrib)
qed

lemma weighted_pos:
  fixes a b c p q r :: real
  assumes "0 \<le> a" "0 \<le> b" "0 \<le> c" "a + b + c = 1" "0 < p" "0 < q" "0 < r"
  shows "0 < p * a + q * b + r * c"
proof -
  have "0 < a \<or> 0 < b \<or> 0 < c" using assms(1-4) by linarith
  moreover have "0 \<le> p * a" "0 \<le> q * b" "0 \<le> r * c" using assms by simp_all
  moreover have "0 < a \<Longrightarrow> 0 < p * a" "0 < b \<Longrightarrow> 0 < q * b" "0 < c \<Longrightarrow> 0 < r * c"
    using assms by simp_all
  ultimately show ?thesis by linarith
qed

lemma sampleW_nonzero:
  assumes w: "wSameSign sc"
    and "0 \<le> x3 (baryOf sc P)" "0 \<le> y3 (baryOf sc P)" "0 \<le> z3 (baryOf sc P)"
  shows "sampleW sc (baryOf sc P) \<noteq> 0"
proof -
  obtain s0 s1 s2 where sc: "sc = (s0, s1, s2)" by (cases sc) auto
  let ?b = "baryOf sc P"
  have s: "x3 ?b + y3 ?b + z3 ?b = 1"
    using assms(2) unfolding sc baryOf_def by (simp add: barycentric_sum)
  from w consider "0 < w4 s0 \<and> 0 < w4 s1 \<and> 0 < w4 s2" | "w4 s0 < 0 \<and> w4 s1 < 0 \<and> w4 s2 < 0"
    unfolding wSameSign_def sc by auto
  then show ?thesis
  proof cases
    case 1
    then have "0 < w4 s0 * x3 ?b + w4 s1 * y3 ?b + w4 s2 * z3 ?b"
      using assms(2-4) s by (intro weighted_pos) simp_all
    then show ?thesis unfolding sampleW_def sc by simp
  next
    case 2
    then have "0 < (- w4 s0) * x3 ?b + (- w4 s1) * y3 ?b + (- w4 s2) * z3 ?b"
      using assms(2-4) s by (intro weighted_pos) simp_all
    then show ?thesis unfolding sampleW_def sc by simp
  qed
qed

lemma sampleDepth_quotient:
  assumes "sampleW sc b \<noteq> 0"
  shows "sampleDepth sc b * sampleW sc b
         = (case sc of (s0, s1, s2) \<Rightarrow> z4 s0 * x3 b + z4 s1 * y3 b + z4 s2 * z3 b)"
  using assms by (cases sc) (simp add: sampleDepth_def sampleW_def Let_def)

lemma slotUpdate_other:
  assumes "sampleIdx cntSample width (fst (fst s)) (snd (fst s)) (snd s) \<noteq> k"
  shows "fst (slotUpdate sc frag width d cntSample s bufs) k = fst bufs k
         \<and> snd (slotUpdate sc frag width d cntSample s bufs) k = snd bufs k"
  using assms by (simp add: slotUpdate_def split: option.splits)

lemma slotUpdate_local:
  assumes "fst bufs (sampleIdx cntSample width (fst (fst s)) (snd (fst s)) (snd s))
           = fst bufs' (sampleIdx cntSample width (fst (fst s)) (snd (fst s)) (snd s))"
    and "snd bufs (sampleIdx cntSample width (fst (fst s)) (snd (fst s)) (snd s))
           = snd bufs' (sampleIdx cntSample width (fst (fst s)) (snd (fst s)) (snd s))"
  shows "fst (slotUpdate sc frag width d cntSample s bufs)
           (sampleIdx cntSample width (fst (fst s)) (snd (fst s)) (snd s))
         = fst (slotUpdate sc frag width d cntSample s bufs')
           (sampleIdx cntSample width (fst (fst s)) (snd (fst s)) (snd s))
         \<and> snd (slotUpdate sc frag width d cntSample s bufs)
           (sampleIdx cntSample width (fst (fst s)) (snd (fst s)) (snd s))
         = snd (slotUpdate sc frag width d cntSample s bufs')
           (sampleIdx cntSample width (fst (fst s)) (snd (fst s)) (snd s))"
  using assms by (simp add: slotUpdate_def sampleAccepted_def Let_def split: option.splits)

lemma slotUpdate_idem:
  "fst (slotUpdate sc frag width d cntSample s (slotUpdate sc frag width d cntSample s bufs)) k
     = fst (slotUpdate sc frag width d cntSample s bufs) k
   \<and> snd (slotUpdate sc frag width d cntSample s (slotUpdate sc frag width d cntSample s bufs)) k
     = snd (slotUpdate sc frag width d cntSample s bufs) k"
  by (simp add: slotUpdate_def sampleAccepted_def Let_def split: option.splits)

lemma fold_slotUpdate_at:
  assumes inj: "\<forall>t \<in> set ss. t \<noteq> s \<longrightarrow>
           sampleIdx cntSample width (fst (fst t)) (snd (fst t)) (snd t)
           \<noteq> sampleIdx cntSample width (fst (fst s)) (snd (fst s)) (snd s)"
    and k: "k = sampleIdx cntSample width (fst (fst s)) (snd (fst s)) (snd s)"
  shows "fst (fold (slotUpdate sc frag width d cntSample) ss bufs) k
         = (if s \<in> set ss then fst (slotUpdate sc frag width d cntSample s bufs) k
            else fst bufs k)
         \<and> snd (fold (slotUpdate sc frag width d cntSample) ss bufs) k
         = (if s \<in> set ss then snd (slotUpdate sc frag width d cntSample s bufs) k
            else snd bufs k)"
  using inj
proof (induction ss arbitrary: bufs)
  case Nil
  show ?case by simp
next
  case (Cons t ss)
  have inj': "\<forall>t \<in> set ss. t \<noteq> s \<longrightarrow>
           sampleIdx cntSample width (fst (fst t)) (snd (fst t)) (snd t)
           \<noteq> sampleIdx cntSample width (fst (fst s)) (snd (fst s)) (snd s)"
    using Cons.prems by simp
  note IH = Cons.IH[OF inj', of "slotUpdate sc frag width d cntSample t bufs"]
  show ?case
  proof (cases "t = s")
    case True
    show ?thesis using IH unfolding True by (simp add: slotUpdate_idem)
  next
    case False
    then have ne: "sampleIdx cntSample width (fst (fst t)) (snd (fst t)) (snd t) \<noteq> k"
      using Cons.prems k by simp
    note o = slotUpdate_other[OF ne, of sc frag d bufs]
    have l: "fst (slotUpdate sc frag width d cntSample s (slotUpdate sc frag width d cntSample t bufs)) k
             = fst (slotUpdate sc frag width d cntSample s bufs) k
             \<and> snd (slotUpdate sc frag width d cntSample s (slotUpdate sc frag width d cntSample t bufs)) k
             = snd (slotUpdate sc frag width d cntSample s bufs) k"
      unfolding k using o unfolding k by (intro slotUpdate_local) simp_all
    show ?thesis using IH False o l by simp
  qed
qed

lemma triangle_at:
  assumes nowrap: "unat width * unat height * unat cntSample \<le> 2 ^ 32"
    and p: "(x, y) \<in> set (bboxPixels sc width height)" and i: "i < unat cntSample"
  shows "fst (triangle sc frag cb zb width height d cntSample) (sampleIdx cntSample width x y i)
         = fst (slotUpdate sc frag width d cntSample ((x, y), i) (cb, zb)) (sampleIdx cntSample width x y i)
         \<and> snd (triangle sc frag cb zb width height d cntSample) (sampleIdx cntSample width x y i)
         = snd (slotUpdate sc frag width d cntSample ((x, y), i) (cb, zb)) (sampleIdx cntSample width x y i)"
proof -
  let ?can = "concat (map (\<lambda>p. map (Pair p) [0 ..< unat cntSample]) (bboxPixels sc width height))"
  have m: "((x, y), i) \<in> set ?can" using p i by (force simp: image_iff)
  have inj: "\<forall>t \<in> set ?can. t \<noteq> ((x, y), i) \<longrightarrow>
           sampleIdx cntSample width (fst (fst t)) (snd (fst t)) (snd t)
           \<noteq> sampleIdx cntSample width (fst (fst ((x, y), i))) (snd (fst ((x, y), i))) (snd ((x, y), i))"
  proof (intro ballI impI notI)
    fix t
    assume t: "t \<in> set ?can" and ne: "t \<noteq> ((x, y), i)"
      and e: "sampleIdx cntSample width (fst (fst t)) (snd (fst t)) (snd t)
           = sampleIdx cntSample width (fst (fst ((x, y), i))) (snd (fst ((x, y), i))) (snd ((x, y), i))"
    from t have tp: "(fst (fst t), snd (fst t)) \<in> set (bboxPixels sc width height)"
      and ti: "snd t < unat cntSample" by auto
    have "fst (fst t) = x \<and> snd (fst t) = y \<and> snd t = i"
      using e by (intro sampleIdx_inj[OF tp ti p i nowrap]) simp
    then have "t = ((x, y), i)" by (simp add: prod_eq_iff)
    with ne show False by simp
  qed
  from fold_slotUpdate_at[OF inj, of "sampleIdx cntSample width x y i" sc frag d "(cb, zb)"] m
  show ?thesis unfolding triangle_def rasterize_fold by simp
qed

lemma sampleStep_skip:
  assumes "x3 (baryOf sc (samplePoint d x y i)) < 0 \<or> y3 (baryOf sc (samplePoint d x y i)) < 0
           \<or> z3 (baryOf sc (samplePoint d x y i)) < 0
           \<or> sampleDepth sc (baryOf sc (samplePoint d x y i))
               < zBuffer st (sampleIdx cntSample width x y i)"
  shows "sampleStep sc frag width d cntSample x y i st = Some st"
  using assms by (simp add: sampleStep_def Let_def)

lemma sampleStep_write:
  assumes "0 \<le> x3 (baryOf sc (samplePoint d x y i))" "0 \<le> y3 (baryOf sc (samplePoint d x y i))"
    "0 \<le> z3 (baryOf sc (samplePoint d x y i))"
    and "zBuffer st (sampleIdx cntSample width x y i)
         \<le> sampleDepth sc (baryOf sc (samplePoint d x y i))"
    and "(if covered st then Some (color st) else frag (baryOf sc (pixelCenter x y))) = Some c"
  shows "map_option (\<lambda>st'. (colorBuffer st', zBuffer st'))
           (sampleStep sc frag width d cntSample x y i st)
         = Some ((colorBuffer st)(sampleIdx cntSample width x y i := c),
                 (zBuffer st)(sampleIdx cntSample width x y i :=
                    sampleDepth sc (baryOf sc (samplePoint d x y i))))"
  using assms
  by (auto simp: sampleStep_def Let_def split: if_splits option.splits)

lemma triangle_skip:
  assumes nowrap: "unat width * unat height * unat cntSample \<le> 2 ^ 32"
    and p: "(x, y) \<in> set (bboxPixels sc width height)" and i: "i < unat cntSample"
    and "x3 (baryOf sc (samplePoint d x y i)) < 0 \<or> y3 (baryOf sc (samplePoint d x y i)) < 0
           \<or> z3 (baryOf sc (samplePoint d x y i)) < 0
           \<or> sampleDepth sc (baryOf sc (samplePoint d x y i))
               < zb (sampleIdx cntSample width x y i)"
  shows "fst (triangle sc frag cb zb width height d cntSample) (sampleIdx cntSample width x y i)
           = cb (sampleIdx cntSample width x y i)
         \<and> snd (triangle sc frag cb zb width height d cntSample) (sampleIdx cntSample width x y i)
           = zb (sampleIdx cntSample width x y i)"
  using triangle_at[OF nowrap p i, of frag cb zb d] assms(4)
  by (auto simp: slotUpdate_def sampleAccepted_def Let_def split: option.splits)

lemma triangle_write:
  assumes nowrap: "unat width * unat height * unat cntSample \<le> 2 ^ 32"
    and p: "(x, y) \<in> set (bboxPixels sc width height)" and i: "i < unat cntSample"
    and "0 \<le> x3 (baryOf sc (samplePoint d x y i))" "0 \<le> y3 (baryOf sc (samplePoint d x y i))"
    "0 \<le> z3 (baryOf sc (samplePoint d x y i))"
    and "zb (sampleIdx cntSample width x y i)
         \<le> sampleDepth sc (baryOf sc (samplePoint d x y i))"
    and "frag (baryOf sc (pixelCenter x y)) = Some c"
  shows "fst (triangle sc frag cb zb width height d cntSample) (sampleIdx cntSample width x y i)
           = c
         \<and> snd (triangle sc frag cb zb width height d cntSample) (sampleIdx cntSample width x y i)
           = sampleDepth sc (baryOf sc (samplePoint d x y i))"
  using triangle_at[OF nowrap p i, of frag cb zb d] assms(4-)
  by (simp add: slotUpdate_def sampleAccepted_def Let_def)

lemma flat_bary: "baryOf flatTri (Vec2f 0 0) = Vec3f 1 0 0"
  by (simp add: flatTri_def baryOf_def barycentric_def proj2_def cross_def Let_def)

lemma flat_depth: "sampleDepth flatTri (Vec3f 1 0 0) = 1 / 2"
  by (simp add: flatTri_def sampleDepth_def Let_def)

lemma flat_bmin11: "bboxmin flatTri 1 1 = (0, 0)"
  by (simp add: bboxmin_def flatTri_def f2i0 f2i4)
lemma flat_bmax11: "bboxmax flatTri 1 1 = (0, 0)"
  by (simp add: bboxmax_def flatTri_def f2i0 f2i4)
lemma flat_pixels: "bboxPixels flatTri 1 1 = [(0, 0)]"
  by (simp add: bboxPixels_def flat_bmin11 flat_bmax11)

lemma idx0: "sampleIdx 1 1 0 0 0 = 0"
  by (simp add: sampleIdx_def)

text \<open>
  Claim C1, as stated, at a sample whose depth equals the stored depth: the triangle \<open>flatTri\<close>
  has depth 1/2 at the sample of pixel (0, 0), the slot holds 1/2 and black, and \<open>triangle\<close>
  overwrites the slot's colour with the fragment's.
\<close>

theorem equal_depth_sample_overwrites:
  "sampleDepth flatTri (baryOf flatTri (samplePoint D_NonMSAA 0 0 0))
     = halfMem (sampleIdx 1 1 0 0 0)
   \<and> fst (triangle flatTri whiteFrag blackMem halfMem 1 1 D_NonMSAA 1) (sampleIdx 1 1 0 0 0)
       = Vec3f 255 255 255
   \<and> blackMem (sampleIdx 1 1 0 0 0) = Vec3f 0 0 0"
  by (simp add: triangle_def rasterize_def flat_pixels pixelStep_def sampleStep_def Let_def
        samplePoint_def D_NonMSAA_def flat_bary flat_depth idx0 halfMem_def whiteFrag_def
        blackMem_def)

text \<open>
  Claim C1, amended. The test that skips a sample is \<open>z < zBuffer[idx]\<close>: a sample is written when
  its depth is not smaller than the stored depth, equal depth included. For a triangle whose
  three \<open>w\<close> have one sign, with \<open>bar\<close> the weights of the sample, \<open>z\<close> its depth and \<open>idx\<close> its
  slot:
  (1) the interpolated \<open>w\<close> of a sample with no negative weight is not zero, and \<open>z\<close> times
  it is the interpolated \<open>z\<close> of the vertices;
  (2) a pass of the sample loop whose sample has a negative weight or has \<open>z\<close> smaller than the
  stored depth leaves colour buffer, depth buffer and the pixel's locals as they were;
  (3) a pass whose sample has no negative weight and has \<open>z\<close> greater than or equal to the
  stored depth, in a pixel that has a colour \<open>c\<close> (the one shaded before, or the one the shader
  returns now), stores \<open>c\<close> and \<open>z\<close> in the slot and changes no other slot;
  (4) a pass that changes the colour or the depth of a slot \<open>k\<close> is the pass of that slot's
  sample, \<open>z\<close> is not smaller than the stored depth, and \<open>z\<close> is what the slot holds afterwards;
  (5) over a whole call of \<open>triangle\<close> on a raster whose buffer length fits the \<open>unsigned\<close>
  index, for a sample of a pixel of the bounding box: the slot holds the colour and depth it
  held before when the sample has a negative weight or \<open>z\<close> is smaller than the stored depth,
  and holds the pixel's colour and \<open>z\<close> when the sample has no negative weight, \<open>z\<close> is greater
  than or equal to the stored depth and the shader returns a colour;
  (6) over a whole call of \<open>triangle\<close> no slot's depth decreases.
\<close>

theorem depth_test_admits_equal_depth:
  fixes sc :: tri and st :: raster and d :: "(real \<times> real) list" and x y :: int and i :: nat
    and cntSample width :: "32 word"
  defines "bar \<equiv> baryOf sc (samplePoint d x y i)"
  defines "z \<equiv> sampleDepth sc bar"
  defines "idx \<equiv> sampleIdx cntSample width x y i"
  assumes w: "wSameSign sc"
  shows "(0 \<le> x3 bar \<and> 0 \<le> y3 bar \<and> 0 \<le> z3 bar
      \<longrightarrow> sampleW sc bar \<noteq> 0
          \<and> z * sampleW sc bar
              = (case sc of (s0, s1, s2) \<Rightarrow> z4 s0 * x3 bar + z4 s1 * y3 bar + z4 s2 * z3 bar))
   \<and> (x3 bar < 0 \<or> y3 bar < 0 \<or> z3 bar < 0 \<or> z < zBuffer st idx
      \<longrightarrow> sampleStep sc frag width d cntSample x y i st = Some st)
   \<and> (0 \<le> x3 bar \<and> 0 \<le> y3 bar \<and> 0 \<le> z3 bar \<and> zBuffer st idx \<le> z
      \<and> (if covered st then Some (color st) else frag (baryOf sc (pixelCenter x y))) = Some c
      \<longrightarrow> map_option (\<lambda>st'. (colorBuffer st', zBuffer st'))
            (sampleStep sc frag width d cntSample x y i st)
          = Some ((colorBuffer st)(idx := c), (zBuffer st)(idx := z)))
   \<and> (sampleStep sc frag width d cntSample x y i st = Some st'
      \<and> (colorBuffer st' k \<noteq> colorBuffer st k \<or> zBuffer st' k \<noteq> zBuffer st k)
      \<longrightarrow> k = idx \<and> \<not> z < zBuffer st k \<and> zBuffer st' k = z)
   \<and> (unat width * unat height * unat cntSample \<le> 2 ^ 32
      \<and> (x, y) \<in> set (bboxPixels sc width height) \<and> i < unat cntSample
      \<longrightarrow> (x3 bar < 0 \<or> y3 bar < 0 \<or> z3 bar < 0 \<or> z < zb idx
           \<longrightarrow> fst (triangle sc frag cb zb width height d cntSample) idx = cb idx
               \<and> snd (triangle sc frag cb zb width height d cntSample) idx = zb idx)
        \<and> (0 \<le> x3 bar \<and> 0 \<le> y3 bar \<and> 0 \<le> z3 bar \<and> zb idx \<le> z
           \<and> frag (baryOf sc (pixelCenter x y)) = Some c
           \<longrightarrow> fst (triangle sc frag cb zb width height d cntSample) idx = c
               \<and> snd (triangle sc frag cb zb width height d cntSample) idx = z))
   \<and> zb k \<le> snd (triangle sc frag cb zb width height d cntSample) k"
proof (intro conjI impI)
  assume "0 \<le> x3 bar \<and> 0 \<le> y3 bar \<and> 0 \<le> z3 bar"
  then show n: "sampleW sc bar \<noteq> 0"
    unfolding bar_def by (intro sampleW_nonzero[OF w]) simp_all
  show "z * sampleW sc bar
        = (case sc of (s0, s1, s2) \<Rightarrow> z4 s0 * x3 bar + z4 s1 * y3 bar + z4 s2 * z3 bar)"
    unfolding z_def by (rule sampleDepth_quotient[OF n])
next
  assume "x3 bar < 0 \<or> y3 bar < 0 \<or> z3 bar < 0 \<or> z < zBuffer st idx"
  then show "sampleStep sc frag width d cntSample x y i st = Some st"
    unfolding bar_def z_def idx_def by (rule sampleStep_skip)
next
  assume "0 \<le> x3 bar \<and> 0 \<le> y3 bar \<and> 0 \<le> z3 bar \<and> zBuffer st idx \<le> z
      \<and> (if covered st then Some (color st) else frag (baryOf sc (pixelCenter x y))) = Some c"
  then show "map_option (\<lambda>st'. (colorBuffer st', zBuffer st'))
            (sampleStep sc frag width d cntSample x y i st)
          = Some ((colorBuffer st)(idx := c), (zBuffer st)(idx := z))"
    unfolding bar_def z_def idx_def by (intro sampleStep_write) simp_all
next
  assume a: "sampleStep sc frag width d cntSample x y i st = Some st'
      \<and> (colorBuffer st' k \<noteq> colorBuffer st k \<or> zBuffer st' k \<noteq> zBuffer st k)"
  note c = sampleStep_changed[OF conjunct1[OF a] conjunct2[OF a]]
  show "k = idx" unfolding idx_def using c by blast
  show "\<not> z < zBuffer st k"
    unfolding z_def bar_def using c unfolding sampleAccepted_def Let_def by blast
  show "zBuffer st' k = z" unfolding z_def bar_def using c by blast
next
  assume a: "unat width * unat height * unat cntSample \<le> 2 ^ 32
      \<and> (x, y) \<in> set (bboxPixels sc width height) \<and> i < unat cntSample"
  assume b: "x3 bar < 0 \<or> y3 bar < 0 \<or> z3 bar < 0 \<or> z < zb idx"
  have "fst (triangle sc frag cb zb width height d cntSample) idx = cb idx
        \<and> snd (triangle sc frag cb zb width height d cntSample) idx = zb idx"
    using a b unfolding bar_def z_def idx_def by (intro triangle_skip) simp_all
  then show "fst (triangle sc frag cb zb width height d cntSample) idx = cb idx"
    and "snd (triangle sc frag cb zb width height d cntSample) idx = zb idx" by simp_all
next
  assume a: "unat width * unat height * unat cntSample \<le> 2 ^ 32
      \<and> (x, y) \<in> set (bboxPixels sc width height) \<and> i < unat cntSample"
  assume b: "0 \<le> x3 bar \<and> 0 \<le> y3 bar \<and> 0 \<le> z3 bar \<and> zb idx \<le> z
           \<and> frag (baryOf sc (pixelCenter x y)) = Some c"
  have "fst (triangle sc frag cb zb width height d cntSample) idx = c
        \<and> snd (triangle sc frag cb zb width height d cntSample) idx = z"
    using a b unfolding bar_def z_def idx_def by (intro triangle_write) simp_all
  then show "fst (triangle sc frag cb zb width height d cntSample) idx = c"
    and "snd (triangle sc frag cb zb width height d cntSample) idx = z" by simp_all
next
  show "zb k \<le> snd (triangle sc frag cb zb width height d cntSample) k"
    by (rule triangle_depth_mono)
qed


lemma flat_w: "wSameSign flatTri"
  by (simp add: wSameSign_def flatTri_def)

lemma flat_sample: "baryOf flatTri (samplePoint D_NonMSAA 0 0 0) = Vec3f 1 0 0"
  by (simp add: samplePoint_def D_NonMSAA_def flat_bary)

lemma flat_in: "(0, 0) \<in> set (bboxPixels flatTri 1 1)"
  by (simp add: flat_pixels)

theorem depth_test_admits_equal_depth_witness:
  "wSameSign flatTri
   \<and> unat (1::32 word) * unat (1::32 word) * unat (1::32 word) \<le> 2 ^ 32
   \<and> (0, 0) \<in> set (bboxPixels flatTri 1 1) \<and> 0 < unat (1::32 word)
   \<and> baryOf flatTri (samplePoint D_NonMSAA 0 0 0) = Vec3f 1 0 0
   \<and> sampleW flatTri (baryOf flatTri (samplePoint D_NonMSAA 0 0 0)) \<noteq> 0
   \<and> sampleDepth flatTri (baryOf flatTri (samplePoint D_NonMSAA 0 0 0)) = 1 / 2
   \<and> sampleIdx 1 1 0 0 0 = 0
   \<and> whiteFrag (baryOf flatTri (pixelCenter 0 0)) = Some (Vec3f 255 255 255)
   \<and> 1 / 2 < oneMem 0
   \<and> sampleStep flatTri whiteFrag 1 D_NonMSAA 1 0 0 0
        \<lparr>colorBuffer = blackMem, zBuffer = oneMem, covered = False, color = Vec3f 0 0 0\<rparr>
       = Some \<lparr>colorBuffer = blackMem, zBuffer = oneMem, covered = False, color = Vec3f 0 0 0\<rparr>
   \<and> fst (triangle flatTri whiteFrag blackMem oneMem 1 1 D_NonMSAA 1) 0 = blackMem 0
   \<and> snd (triangle flatTri whiteFrag blackMem oneMem 1 1 D_NonMSAA 1) 0 = oneMem 0
   \<and> zeroMem 0 < 1 / 2
   \<and> map_option (\<lambda>st'. (colorBuffer st', zBuffer st'))
        (sampleStep flatTri whiteFrag 1 D_NonMSAA 1 0 0 0
           \<lparr>colorBuffer = blackMem, zBuffer = zeroMem, covered = False, color = Vec3f 0 0 0\<rparr>)
       = Some (blackMem(0 := Vec3f 255 255 255), zeroMem(0 := 1 / 2))
   \<and> fst (triangle flatTri whiteFrag blackMem zeroMem 1 1 D_NonMSAA 1) 0 = Vec3f 255 255 255
   \<and> snd (triangle flatTri whiteFrag blackMem zeroMem 1 1 D_NonMSAA 1) 0 = 1 / 2
   \<and> halfMem 0 = 1 / 2
   \<and> map_option (\<lambda>st'. (colorBuffer st', zBuffer st'))
        (sampleStep flatTri whiteFrag 1 D_NonMSAA 1 0 0 0
           \<lparr>colorBuffer = blackMem, zBuffer = halfMem, covered = False, color = Vec3f 0 0 0\<rparr>)
       = Some (blackMem(0 := Vec3f 255 255 255), halfMem(0 := 1 / 2))
   \<and> fst (triangle flatTri whiteFrag blackMem halfMem 1 1 D_NonMSAA 1) 0 = Vec3f 255 255 255
   \<and> snd (triangle flatTri whiteFrag blackMem halfMem 1 1 D_NonMSAA 1) 0 = 1 / 2
   \<and> blackMem 0 \<noteq> Vec3f 255 255 255"
proof -
  note t = depth_test_admits_equal_depth
    [OF flat_w, where d=D_NonMSAA and x=0 and y=0 and i=0 and cntSample=1 and width=1
       and height=1 and frag=whiteFrag and c="Vec3f 255 255 255" and cb=blackMem and k=0]
  note t1 = t[where st="\<lparr>colorBuffer = blackMem, zBuffer = oneMem, covered = False,
                         color = Vec3f 0 0 0\<rparr>" and zb=oneMem]
  note t2 = t[where st="\<lparr>colorBuffer = blackMem, zBuffer = zeroMem, covered = False,
                         color = Vec3f 0 0 0\<rparr>" and zb=zeroMem]
  note t3 = t[where st="\<lparr>colorBuffer = blackMem, zBuffer = halfMem, covered = False,
                         color = Vec3f 0 0 0\<rparr>" and zb=halfMem
                and st'="\<lparr>colorBuffer = blackMem(0 := Vec3f 255 255 255),
                           zBuffer = halfMem(0 := 1 / 2), covered = True,
                           color = Vec3f 255 255 255\<rparr>"]
  have n: "unat (1::32 word) * unat (1::32 word) * unat (1::32 word) \<le> 2 ^ 32" by simp
  have i: "0 < unat (1::32 word)" by simp
  have f: "whiteFrag (baryOf flatTri (pixelCenter 0 0)) = Some (Vec3f 255 255 255)"
    by (simp add: whiteFrag_def)
  have m: "1 / 2 < oneMem 0" "zeroMem 0 < 1 / 2" "halfMem 0 = 1 / 2"
    "blackMem 0 \<noteq> Vec3f 255 255 255"
    by (simp_all add: oneMem_def zeroMem_def halfMem_def blackMem_def)
  have d: "sampleDepth flatTri (baryOf flatTri (samplePoint D_NonMSAA 0 0 0)) = 1 / 2"
    by (simp add: flat_sample flat_depth)
  have b: "0 \<le> x3 (baryOf flatTri (samplePoint D_NonMSAA 0 0 0))
           \<and> 0 \<le> y3 (baryOf flatTri (samplePoint D_NonMSAA 0 0 0))
           \<and> 0 \<le> z3 (baryOf flatTri (samplePoint D_NonMSAA 0 0 0))"
    by (simp add: flat_sample)
  have r: "unat (1::32 word) * unat (1::32 word) * unat (1::32 word) \<le> 2 ^ 32
           \<and> (0, 0) \<in> set (bboxPixels flatTri 1 1) \<and> 0 < unat (1::32 word)"
    using n flat_in i by blast
  have lt: "sampleDepth flatTri (baryOf flatTri (samplePoint D_NonMSAA 0 0 0))
            < oneMem (sampleIdx 1 1 0 0 0)"
    unfolding d idx0 by (rule m(1))
  have le2: "zeroMem (sampleIdx 1 1 0 0 0)
            \<le> sampleDepth flatTri (baryOf flatTri (samplePoint D_NonMSAA 0 0 0))"
    unfolding d idx0 using m(2) by simp
  have le3: "halfMem (sampleIdx 1 1 0 0 0)
            \<le> sampleDepth flatTri (baryOf flatTri (samplePoint D_NonMSAA 0 0 0))"
    unfolding d idx0 using m(3) by simp
  have w: "sampleW flatTri (baryOf flatTri (samplePoint D_NonMSAA 0 0 0)) \<noteq> 0"
    using t1[THEN conjunct1] b by blast
  have a1: "sampleStep flatTri whiteFrag 1 D_NonMSAA 1 0 0 0
        \<lparr>colorBuffer = blackMem, zBuffer = oneMem, covered = False, color = Vec3f 0 0 0\<rparr>
       = Some \<lparr>colorBuffer = blackMem, zBuffer = oneMem, covered = False, color = Vec3f 0 0 0\<rparr>"
    using t1[THEN conjunct2, THEN conjunct1] lt by simp
  have a1t: "fst (triangle flatTri whiteFrag blackMem oneMem 1 1 D_NonMSAA 1) (sampleIdx 1 1 0 0 0)
          = blackMem (sampleIdx 1 1 0 0 0)
     \<and> snd (triangle flatTri whiteFrag blackMem oneMem 1 1 D_NonMSAA 1) (sampleIdx 1 1 0 0 0)
          = oneMem (sampleIdx 1 1 0 0 0)"
    using t1[THEN conjunct2, THEN conjunct2, THEN conjunct2, THEN conjunct2, THEN conjunct1] r lt
    by blast
  have a2: "map_option (\<lambda>st'. (colorBuffer st', zBuffer st'))
        (sampleStep flatTri whiteFrag 1 D_NonMSAA 1 0 0 0
           \<lparr>colorBuffer = blackMem, zBuffer = zeroMem, covered = False, color = Vec3f 0 0 0\<rparr>)
       = Some (blackMem(sampleIdx 1 1 0 0 0 := Vec3f 255 255 255),
               zeroMem(sampleIdx 1 1 0 0 0 :=
                 sampleDepth flatTri (baryOf flatTri (samplePoint D_NonMSAA 0 0 0))))"
    using t2[THEN conjunct2, THEN conjunct2, THEN conjunct1] b le2 f by simp
  have a2t: "fst (triangle flatTri whiteFrag blackMem zeroMem 1 1 D_NonMSAA 1) (sampleIdx 1 1 0 0 0)
          = Vec3f 255 255 255
     \<and> snd (triangle flatTri whiteFrag blackMem zeroMem 1 1 D_NonMSAA 1) (sampleIdx 1 1 0 0 0)
          = sampleDepth flatTri (baryOf flatTri (samplePoint D_NonMSAA 0 0 0))"
    using t2[THEN conjunct2, THEN conjunct2, THEN conjunct2, THEN conjunct2, THEN conjunct1]
      r b le2 f by blast
  have a3: "map_option (\<lambda>st'. (colorBuffer st', zBuffer st'))
        (sampleStep flatTri whiteFrag 1 D_NonMSAA 1 0 0 0
           \<lparr>colorBuffer = blackMem, zBuffer = halfMem, covered = False, color = Vec3f 0 0 0\<rparr>)
       = Some (blackMem(sampleIdx 1 1 0 0 0 := Vec3f 255 255 255),
               halfMem(sampleIdx 1 1 0 0 0 :=
                 sampleDepth flatTri (baryOf flatTri (samplePoint D_NonMSAA 0 0 0))))"
    using t3[THEN conjunct2, THEN conjunct2, THEN conjunct1] b le3 f by simp
  have a3t: "fst (triangle flatTri whiteFrag blackMem halfMem 1 1 D_NonMSAA 1) (sampleIdx 1 1 0 0 0)
          = Vec3f 255 255 255
     \<and> snd (triangle flatTri whiteFrag blackMem halfMem 1 1 D_NonMSAA 1) (sampleIdx 1 1 0 0 0)
          = sampleDepth flatTri (baryOf flatTri (samplePoint D_NonMSAA 0 0 0))"
    using t3[THEN conjunct2, THEN conjunct2, THEN conjunct2, THEN conjunct2, THEN conjunct1]
      r b le3 f by blast
  note a = a1 a1t[unfolded idx0] a2[unfolded idx0 d] a2t[unfolded idx0 d]
    a3[unfolded idx0 d] a3t[unfolded idx0 d]
  show ?thesis
    using flat_w n flat_in i flat_sample w d idx0 f m a by blast
qed

section \<open>Clipping a polygon that is inside or outside\<close>

lemma clipStep_in:
  assumes "i < length P" "\<forall>v \<in> set P. clipRatio axis v \<le> 1"
  shows "clipStep P axis i r = r @ [P ! i]"
proof -
  have a: "clipRatio axis (P ! i) \<le> 1" using assms by simp
  have "0 < length P" using assms(1) by (cases P) simp_all
  then have "(i + 1) mod length P < length P" by (rule mod_less_divisor)
  then have b: "clipRatio axis (P ! ((i + 1) mod length P)) \<le> 1" using assms(2) by simp
  show ?thesis using a b by (simp add: clipStep_def clipRatio_def Let_def)
qed

lemma singleFaceZClip_in_aux:
  assumes "\<forall>v \<in> set P. clipRatio axis v \<le> 1" "n \<le> length P"
  shows "fold (clipStep P axis) [0 ..< n] r = r @ take n P"
  using assms(2)
proof (induction n)
  case 0
  show ?case by simp
next
  case (Suc n)
  then have n: "n < length P" by simp
  show ?case using Suc.IH n
    by (simp add: clipStep_in[OF n assms(1)] take_Suc_conv_app_nth)
qed

lemma singleFaceZClip_in:
  assumes "\<forall>v \<in> set P. clipRatio axis v \<le> 1"
  shows "singleFaceZClip P r axis = r @ P"
  unfolding singleFaceZClip_def using singleFaceZClip_in_aux[OF assms, of "length P" r] by simp

lemma clipStep_out:
  assumes "i < length P" "\<forall>v \<in> set P. 1 < clipRatio axis v"
  shows "clipStep P axis i r = r"
proof -
  have a: "1 < clipRatio axis (P ! i)" using assms by simp
  have "0 < length P" using assms(1) by (cases P) simp_all
  then have "(i + 1) mod length P < length P" by (rule mod_less_divisor)
  then have b: "1 < clipRatio axis (P ! ((i + 1) mod length P))" using assms(2) by simp
  show ?thesis using a b by (simp add: clipStep_def clipRatio_def Let_def)
qed

lemma singleFaceZClip_out_aux:
  assumes "\<forall>v \<in> set P. 1 < clipRatio axis v" "n \<le> length P"
  shows "fold (clipStep P axis) [0 ..< n] r = r"
  using assms(2)
proof (induction n)
  case 0
  show ?case by simp
next
  case (Suc n)
  then have n: "n < length P" by simp
  show ?case using Suc.IH n by (simp add: clipStep_out[OF n assms(1)])
qed

lemma singleFaceZClip_out:
  assumes "\<forall>v \<in> set P. 1 < clipRatio axis v"
  shows "singleFaceZClip P r axis = r"
  unfolding singleFaceZClip_def using singleFaceZClip_out_aux[OF assms, of "length P" r] by simp

lemma singleFaceZClip_empty: "singleFaceZClip [] r axis = r"
  by (simp add: singleFaceZClip_def)

lemma clipRatio_flipAxis:
  assumes "axis < 3"
  shows "clipRatio axis (flipAxis axis v) = - clipRatio axis v"
  using assms by (simp add: clipRatio_def flipAxis_def nth4_def upd4_def)

lemma flipAxis_flipAxis: "flipAxis axis (flipAxis axis v) = v"
  by (cases "clipCoord v") (simp add: flipAxis_def nth4_def upd4_def)

lemma map_flipAxis_twice: "map (flipAxis axis) (map (flipAxis axis) P) = P"
  by (induction P) (simp_all add: flipAxis_flipAxis)

lemma homogeneousClip_inside:
  assumes "axis < 3" "\<forall>v \<in> set P. - 1 \<le> clipRatio axis v \<and> clipRatio axis v \<le> 1"
  shows "homogeneousClip P [] axis = P"
proof -
  have 1: "singleFaceZClip P [] axis = P"
    using assms(2) by (simp add: singleFaceZClip_in)
  have "\<forall>v \<in> set (map (flipAxis axis) P). clipRatio axis v \<le> 1"
    using assms by (simp add: clipRatio_flipAxis)
  then have 2: "singleFaceZClip (map (flipAxis axis) P) [] axis = map (flipAxis axis) P"
    by (simp add: singleFaceZClip_in)
  show ?thesis by (simp add: homogeneousClip_def Let_def 1 2 map_flipAxis_twice del: map_map)
qed

lemma homogeneousClip_beyond:
  assumes "\<forall>v \<in> set P. 1 < clipRatio axis v"
  shows "homogeneousClip P [] axis = []"
  using assms by (simp add: homogeneousClip_def Let_def singleFaceZClip_out singleFaceZClip_empty)

lemma homogeneousClip_behind:
  assumes "axis < 3" "\<forall>v \<in> set P. clipRatio axis v < - 1"
  shows "homogeneousClip P [] axis = []"
proof -
  have "\<forall>v \<in> set P. clipRatio axis v \<le> 1" using assms(2) by fastforce
  then have 1: "singleFaceZClip P [] axis = P" by (simp add: singleFaceZClip_in)
  have "\<forall>v \<in> set (map (flipAxis axis) P). 1 < clipRatio axis v"
    using assms by (simp add: clipRatio_flipAxis)
  then have 2: "singleFaceZClip (map (flipAxis axis) P) [] axis = []"
    by (simp add: singleFaceZClip_out)
  show ?thesis by (simp add: homogeneousClip_def Let_def 1 2)
qed


lemma insideVolume_ratio:
  assumes "insideVolume axis v"
  shows "w4 (clipCoord v) \<noteq> 0 \<and> - 1 \<le> clipRatio axis v \<and> clipRatio axis v \<le> 1"
proof -
  have w: "0 < w4 (clipCoord v)" using assms by (simp add: insideVolume_def)
  have "- w4 (clipCoord v) \<le> nth4 (clipCoord v) axis"
    and "nth4 (clipCoord v) axis \<le> w4 (clipCoord v)"
    using assms by (simp_all add: insideVolume_def)
  then have "- 1 \<le> nth4 (clipCoord v) axis / w4 (clipCoord v)"
    and "nth4 (clipCoord v) axis / w4 (clipCoord v) \<le> 1"
    using w by (simp_all add: pos_le_divide_eq pos_divide_le_eq)
  then show ?thesis using w by (simp add: clipRatio_def)
qed

lemma negWPoly_ratio:
  "list_all (\<lambda>v. w4 (clipCoord v) \<noteq> 0 \<and> - 1 \<le> clipRatio 2 v \<and> clipRatio 2 v \<le> 1) negWPoly"
  by (simp add: negWPoly_def vtx_def clipRatio_def nth4_def)

text \<open>
  Claim C4, as stated, at a polygon outside the volume \<open>-w \<le> z \<le> w\<close>, \<open>w > 0\<close>: the three
  vertices of \<open>negWPoly\<close> have \<open>w = -1\<close>, so no point of the polygon is in the volume, and
  \<open>homogeneousClip\<close> returns all three.
\<close>

theorem negative_w_polygon_survives_clip:
  "\<not> insideVolume 2 (negWPoly ! 0) \<and> \<not> insideVolume 2 (negWPoly ! 1)
   \<and> \<not> insideVolume 2 (negWPoly ! 2) \<and> length negWPoly = 3
   \<and> homogeneousClip negWPoly [] 2 = negWPoly
   \<and> \<not> length (homogeneousClip negWPoly [] 2) < 3"
proof -
  have o: "\<not> insideVolume 2 (negWPoly ! 0) \<and> \<not> insideVolume 2 (negWPoly ! 1)
           \<and> \<not> insideVolume 2 (negWPoly ! 2) \<and> length negWPoly = 3"
    by (simp add: negWPoly_def vtx_def insideVolume_def)
  have "\<forall>v \<in> set negWPoly. - 1 \<le> clipRatio 2 v \<and> clipRatio 2 v \<le> 1"
    using negWPoly_ratio by (simp add: list_all_iff)
  then have c: "homogeneousClip negWPoly [] 2 = negWPoly"
    by (intro homogeneousClip_inside) simp_all
  show ?thesis using o c by simp
qed

text \<open>
  Claim C4, amended. The clipper tests the ratio \<open>axis / w\<close>, for the axis x, y or z. A polygon
  all of whose vertices have \<open>w \<noteq> 0\<close> and \<open>-1 \<le> axis / w \<le> 1\<close> is returned unchanged, vertex
  for vertex; that holds for every polygon inside \<open>-w \<le> axis \<le> w\<close> with \<open>w > 0\<close>, and also for
  vertices with \<open>w < 0\<close> and \<open>w \<le> axis \<le> -w\<close>. A polygon all of whose vertices have
  \<open>axis / w > 1\<close>, or all of whose vertices have \<open>axis / w < -1\<close>, is clipped to no vertex at
  all, so to fewer than 3.
\<close>

theorem homogeneousClip_inside_outside:
  assumes "axis < 3"
  shows "((\<forall>v \<in> set P. w4 (clipCoord v) \<noteq> 0 \<and> - 1 \<le> clipRatio axis v \<and> clipRatio axis v \<le> 1)
            \<longrightarrow> homogeneousClip P [] axis = P)
         \<and> ((\<forall>v \<in> set P. insideVolume axis v) \<longrightarrow> homogeneousClip P [] axis = P)
         \<and> ((\<forall>v \<in> set P. w4 (clipCoord v) \<noteq> 0 \<and> 1 < clipRatio axis v)
              \<or> (\<forall>v \<in> set P. w4 (clipCoord v) \<noteq> 0 \<and> clipRatio axis v < - 1)
            \<longrightarrow> homogeneousClip P [] axis = [] \<and> length (homogeneousClip P [] axis) < 3)"
proof (intro conjI impI)
  assume "\<forall>v \<in> set P. w4 (clipCoord v) \<noteq> 0 \<and> - 1 \<le> clipRatio axis v \<and> clipRatio axis v \<le> 1"
  then show "homogeneousClip P [] axis = P"
    using assms by (intro homogeneousClip_inside) simp_all
next
  assume "\<forall>v \<in> set P. insideVolume axis v"
  then have "\<forall>v \<in> set P. - 1 \<le> clipRatio axis v \<and> clipRatio axis v \<le> 1"
    using insideVolume_ratio by blast
  then show "homogeneousClip P [] axis = P"
    using assms by (intro homogeneousClip_inside) simp_all
next
  assume a: "(\<forall>v \<in> set P. w4 (clipCoord v) \<noteq> 0 \<and> 1 < clipRatio axis v)
              \<or> (\<forall>v \<in> set P. w4 (clipCoord v) \<noteq> 0 \<and> clipRatio axis v < - 1)"
  show e: "homogeneousClip P [] axis = []"
    using a
  proof
    assume "\<forall>v \<in> set P. w4 (clipCoord v) \<noteq> 0 \<and> 1 < clipRatio axis v"
    then show ?thesis by (intro homogeneousClip_beyond) simp
  next
    assume "\<forall>v \<in> set P. w4 (clipCoord v) \<noteq> 0 \<and> clipRatio axis v < - 1"
    then show ?thesis using assms by (intro homogeneousClip_behind) simp_all
  qed
  show "length (homogeneousClip P [] axis) < 3" using e by simp
qed

theorem homogeneousClip_inside_outside_witness:
  "(2::nat) < 3
   \<and> list_all (\<lambda>v. w4 (clipCoord v) \<noteq> 0 \<and> - 1 \<le> clipRatio 2 v \<and> clipRatio 2 v \<le> 1) negWPoly
   \<and> homogeneousClip negWPoly [] 2 = negWPoly
   \<and> list_all (insideVolume 2) insidePoly
   \<and> homogeneousClip insidePoly [] 2 = insidePoly
   \<and> list_all (\<lambda>v. w4 (clipCoord v) \<noteq> 0 \<and> 1 < clipRatio 2 v) beyondPoly
   \<and> homogeneousClip beyondPoly [] 2 = [] \<and> length (homogeneousClip beyondPoly [] 2) < 3
   \<and> list_all (\<lambda>v. w4 (clipCoord v) \<noteq> 0 \<and> clipRatio 2 v < - 1) behindPoly
   \<and> homogeneousClip behindPoly [] 2 = [] \<and> length (homogeneousClip behindPoly [] 2) < 3"
proof -
  have ax: "(2::nat) < 3" by simp
  have h1: "list_all (insideVolume 2) insidePoly"
    by (simp add: insidePoly_def vtx_def insideVolume_def nth4_def)
  have h2: "list_all (\<lambda>v. w4 (clipCoord v) \<noteq> 0 \<and> 1 < clipRatio 2 v) beyondPoly"
    by (simp add: beyondPoly_def vtx_def clipRatio_def nth4_def)
  have h3: "list_all (\<lambda>v. w4 (clipCoord v) \<noteq> 0 \<and> clipRatio 2 v < - 1) behindPoly"
    by (simp add: behindPoly_def vtx_def clipRatio_def nth4_def)
  have c0: "homogeneousClip negWPoly [] 2 = negWPoly"
    using homogeneousClip_inside_outside [OF ax, of negWPoly] negWPoly_ratio
    by (simp add: list_all_iff)
  have c1: "homogeneousClip insidePoly [] 2 = insidePoly"
    using homogeneousClip_inside_outside [OF ax, of insidePoly] h1
    by (simp add: list_all_iff)
  have c2: "homogeneousClip beyondPoly [] 2 = []"
    using homogeneousClip_inside_outside [OF ax, of beyondPoly] h2
    by (simp add: list_all_iff)
  have c3: "homogeneousClip behindPoly [] 2 = []"
    using homogeneousClip_inside_outside [OF ax, of behindPoly] h3
    by (simp add: list_all_iff)
  show ?thesis using ax negWPoly_ratio h1 h2 h3 c0 c1 c2 c3 by simp
qed

section \<open>The intersection vertex\<close>

lemma edge_crosses:
  "clipRatio 2 edgeNow < 1 \<and> 1 < clipRatio 2 edgeNext"
  by (simp add: clipRatio_def edgeNow_def edgeNext_def nth4_def)

text \<open>
  Claim C2. For every edge the clip coordinate of the vertex that \<open>pushIntersection\<close> builds is
  the one the specification describes, interpolated linearly at the parameter \<open>t\<close>. World
  coordinate, UV and normal are not: the code interpolates them linearly without dividing by
  the endpoints' \<open>w\<close>, and then multiplies by the interpolated \<open>w\<close>. On the edge from
  \<open>edgeNow\<close> to \<open>edgeNext\<close> (both \<open>w = 2\<close>, \<open>z / w\<close> from 1/2 to 3/2, the same UV (1, 1) and
  normal (0, 0, 1) at both ends) the code returns UV (2, 2) and normal (0, 0, 2), the
  specification's formula UV (1, 1) and normal (0, 0, 1).
\<close>

theorem intersection_omits_division_by_w:
  "clipCoord (intersection now next axis) = clipCoord (specIntersection now next axis)
   \<and> uv (intersection edgeNow edgeNext 2) = Vec2f 2 2
   \<and> uv (specIntersection edgeNow edgeNext 2) = Vec2f 1 1
   \<and> normal (intersection edgeNow edgeNext 2) = Vec3f 0 0 2
   \<and> normal (specIntersection edgeNow edgeNext 2) = Vec3f 0 0 1
   \<and> worldCoord (intersection edgeNow edgeNext 2) = Vec4f 0 0 4 2
   \<and> worldCoord (specIntersection edgeNow edgeNext 2) = Vec4f 0 0 2 1
   \<and> singleFaceZClip [edgeNow, edgeNext] [] 2
       = [edgeNow, intersection edgeNow edgeNext 2, intersection edgeNext edgeNow 2]"
proof -
  have 1: "clipCoord (intersection now next axis) = clipCoord (specIntersection now next axis)"
    by (simp add: intersection_def specIntersection_def Let_def)
  have 2: "uv (intersection edgeNow edgeNext 2) = Vec2f 2 2"
    "normal (intersection edgeNow edgeNext 2) = Vec3f 0 0 2"
    "worldCoord (intersection edgeNow edgeNext 2) = Vec4f 0 0 4 2"
    by (simp_all add: intersection_def Let_def edgeNow_def edgeNext_def nth4_def
          add2_def sub2_def scale2_def add3_def sub3_def scale3_def add4_def sub4_def scale4_def)
  have 3: "uv (specIntersection edgeNow edgeNext 2) = Vec2f 1 1"
    "normal (specIntersection edgeNow edgeNext 2) = Vec3f 0 0 1"
    "worldCoord (specIntersection edgeNow edgeNext 2) = Vec4f 0 0 2 1"
    by (simp_all add: specIntersection_def Let_def edgeNow_def edgeNext_def nth4_def
          add2_def sub2_def scale2_def add3_def sub3_def scale3_def add4_def sub4_def scale4_def)
  have u: "[0 ..< 2] = [0, Suc 0]" by (simp add: upt_rec)
  have 4: "singleFaceZClip [edgeNow, edgeNext] [] 2
           = [edgeNow, intersection edgeNow edgeNext 2, intersection edgeNext edgeNow 2]"
    using edge_crosses
    by (simp add: singleFaceZClip_def u clipStep_def Let_def pushIntersection_def clipRatio_def)
  show ?thesis using 1 2 3 4 by simp
qed

section \<open>The shadow factor\<close>

lemma fold_pcfInner:
  assumes "0 \<le> sx" "sx < uint width"
  shows "fold (pcfInner lsp buf width height sx) dys st
         = (fst st + of_nat (length (filter (\<lambda>s. z3 lsp + 5 / 1000 < buf (shadowIdx width (fst s) (snd s)))
                (filter (inBounds width height)
                   (map (\<lambda>dy. (sx, float2int (y3 lsp + of_int dy))) dys)))),
            snd st + int (length (filter (inBounds width height)
                   (map (\<lambda>dy. (sx, float2int (y3 lsp + of_int dy))) dys))))"
  using assms
proof (induction dys arbitrary: st)
  case Nil
  show ?case by simp
next
  case (Cons dy dys)
  have ib: "inBounds width height (sx, sy) = (\<not> (sy < 0 \<or> uint height \<le> sy))" for sy
    using Cons.prems by (auto simp: inBounds_def)
  show ?case
    unfolding fold_Cons comp_def Cons.IH[OF Cons.prems]
    by (simp add: pcfInner_def Let_def ib)
qed

lemma fold_pcfInner_out:
  assumes "\<not> (0 \<le> sx \<and> sx < uint width)"
  shows "filter (inBounds width height) (map (\<lambda>dy. (sx, f dy)) dys) = []"
  using assms by (induction dys) (auto simp: inBounds_def)

lemma fold_pcfOuter:
  "fold (pcfOuter lsp buf width height) dxs st
   = (fst st + of_nat (length (filter (\<lambda>s. z3 lsp + 5 / 1000 < buf (shadowIdx width (fst s) (snd s)))
                (filter (inBounds width height)
                   (concat (map (\<lambda>dx. map (\<lambda>dy. (float2int (x3 lsp + of_int dx),
                                                    float2int (y3 lsp + of_int dy))) [- 2 .. 1]) dxs))))),
      snd st + int (length (filter (inBounds width height)
                   (concat (map (\<lambda>dx. map (\<lambda>dy. (float2int (x3 lsp + of_int dx),
                                                    float2int (y3 lsp + of_int dy))) [- 2 .. 1]) dxs)))))"
proof (induction dxs arbitrary: st)
  case Nil
  show ?case by simp
next
  case (Cons dx dxs)
  show ?case
  proof (cases "0 \<le> float2int (x3 lsp + of_int dx) \<and> float2int (x3 lsp + of_int dx) < uint width")
    case True
    then have x: "\<not> (float2int (x3 lsp + of_int dx) < 0
                  \<or> uint width \<le> float2int (x3 lsp + of_int dx))"
      by simp
    show ?thesis
      unfolding fold_Cons comp_def Cons.IH
      using True x by (simp add: pcfOuter_def Let_def fold_pcfInner del: filter_map)
  next
    case False
    then have x: "float2int (x3 lsp + of_int dx) < 0
                  \<or> uint width \<le> float2int (x3 lsp + of_int dx)"
      by (simp add: not_le not_less)
    show ?thesis
      unfolding fold_Cons comp_def Cons.IH
      using x by (simp add: pcfOuter_def Let_def fold_pcfInner_out[OF False] del: filter_map)
  qed
qed

lemma shadowFactor_pcfRatio:
  "shadowFactor lsp buf width height = pcfRatio (z3 lsp + 5 / 1000) lsp buf width height"
  by (simp add: shadowFactor_def pcfRatio_def fold_pcfOuter neighbourhood_def Let_def)

text \<open>
  Claim C5. For every fragment the Phong shader accepts, the shadow factor is the number of
  samples of the 4-by-4 neighbourhood that are in bounds and whose stored depth is closer to
  the light than the fragment's light-space depth by more than the bias 0.005, divided by the
  number of samples in bounds. The depth values of the shadow pass grow towards the light, so
  with depth read as distance from the light the stored distance is below the fragment's
  distance minus the bias exactly when \<open>z + 0.005 < stored\<close>, the test of the code. With no
  sample in bounds the quotient is 0/0, no number.
\<close>

theorem shadow_factor_counts_beyond_bias:
  "fragmentShadow vScreenCoords vLightSpacePos uShadowBuffer width height bar
   = map_option (\<lambda>lightSpacePos.
        pcfRatio (z3 lightSpacePos + 5 / 1000) lightSpacePos uShadowBuffer width height)
       (fragmentLightSpacePos vScreenCoords vLightSpacePos bar)"
  by (simp add: fragmentShadow_def shadowFactor_pcfRatio)

section \<open>The buffers before the passes\<close>

lemma fold_initSample:
  "mainZBuffer (fold (initSample i) js b) k
     = (if k \<in> initIdx i ` set js then - FLT_MAX else mainZBuffer b k)
   \<and> shadowZBuffer (fold (initSample i) js b) = shadowZBuffer b"
  by (induction js arbitrary: b) (auto simp: initSample_def)

lemma initPixel_z:
  "mainZBuffer (initPixel i b) k
     = (if k \<in> initIdx i ` {0 ..< unat CNT_SAMPLE} then - FLT_MAX else mainZBuffer b k)
   \<and> shadowZBuffer (initPixel i b) k = (if k = i then - FLT_MAX else shadowZBuffer b k)"
  using fold_initSample[of i "[0 ..< unat CNT_SAMPLE]" b k]
  by (simp add: initPixel_def Let_def)

lemma fold_initPixel:
  "mainZBuffer (fold initPixel ns b) k
     = (if \<exists>i \<in> set ns. k \<in> initIdx i ` {0 ..< unat CNT_SAMPLE} then - FLT_MAX
        else mainZBuffer b k)
   \<and> shadowZBuffer (fold initPixel ns b) k
     = (if k \<in> set ns then - FLT_MAX else shadowZBuffer b k)"
  by (induction ns arbitrary: b) (auto simp: initPixel_z)

lemma pixels_count: "unat (SCREEN_WIDTH * SCREEN_HEIGHT) = 640000"
  by (simp add: SCREEN_WIDTH_def SCREEN_HEIGHT_def)

lemma initIdx_exact:
  assumes "i < 640000" "j < 4"
  shows "initIdx i j = 4 * i + j"
proof -
  have "4 * i + j < 2 ^ 32" using assms by simp
  then show ?thesis using assms
    by (simp add: initIdx_def CNT_SAMPLE_def unat_word_ariths unat_of_nat)
qed

lemma initBuffers_main:
  assumes "k < 2560000"
  shows "mainZBuffer (initBuffers b) k = - FLT_MAX"
proof -
  have i: "k div 4 < 640000" using assms by simp
  have j: "k mod 4 < 4" by simp
  have e: "initIdx (k div 4) (k mod 4) = k"
    using initIdx_exact[OF i j] by simp
  have "k \<in> initIdx (k div 4) ` {0 ..< unat CNT_SAMPLE}"
    using e j by (simp add: CNT_SAMPLE_def image_iff) (metis atLeastLessThan_iff j le0)
  then have "\<exists>i \<in> set [0 ..< unat (SCREEN_WIDTH * SCREEN_HEIGHT)].
               k \<in> initIdx i ` {0 ..< unat CNT_SAMPLE}"
    using i unfolding pixels_count by (intro bexI[of _ "k div 4"]) simp_all
  then show ?thesis
    using fold_initPixel[of "[0 ..< unat (SCREEN_WIDTH * SCREEN_HEIGHT)]" b k]
    by (simp add: initBuffers_def)
qed

lemma initBuffers_shadow:
  assumes "k < 640000"
  shows "shadowZBuffer (initBuffers b) k = - FLT_MAX"
  using assms fold_initPixel[of "[0 ..< unat (SCREEN_WIDTH * SCREEN_HEIGHT)]" b k]
  by (simp add: initBuffers_def pixels_count)

text \<open>
  Claim C8, as stated: after the initialisation the first slot of the depth buffer holds
  \<open>-FLT_MAX\<close>, a finite number that is not below every finite \<open>float\<close>; it is the value
  \<open>writeFrame\<close> compares with to tell an empty sample.
\<close>

theorem initial_depth_is_finite:
  "mainZBuffer (initBuffers freshBuffers) 0 = - FLT_MAX
   \<and> \<not> belowEveryFloat (mainZBuffer (initBuffers freshBuffers) 0)
   \<and> \<not> sampleDrawn (mainZBuffer (initBuffers freshBuffers)) 0"
  by (simp add: initBuffers_main belowEveryFloat_def sampleDrawn_def)

text \<open>
  Claim C8, amended. The initialisation, which \<open>main\<close> runs before either pass draws a
  triangle, leaves every slot of the depth buffer of the lit pass (length width * height *
  samples per pixel) and every slot of the depth buffer of the shadow pass (length width *
  height) holding the sentinel \<open>-FLT_MAX\<close>, the lowest finite \<open>float\<close>
  -340282346638528859811704183484516925440, whatever the memory held before.
\<close>

theorem buffers_initialised_to_lowest_float:
  "(\<forall>k < unat SCREEN_WIDTH * unat SCREEN_HEIGHT * unat CNT_SAMPLE.
       mainZBuffer (initBuffers b) k = - FLT_MAX)
   \<and> (\<forall>k < unat SHADOW_WIDTH * unat SHADOW_HEIGHT. shadowZBuffer (initBuffers b) k = - FLT_MAX)
   \<and> - FLT_MAX = - 340282346638528859811704183484516925440
   \<and> \<not> belowEveryFloat (- FLT_MAX)"
  by (simp add: initBuffers_main initBuffers_shadow SCREEN_WIDTH_def SCREEN_HEIGHT_def
        SHADOW_WIDTH_def SHADOW_HEIGHT_def CNT_SAMPLE_def FLT_MAX_def belowEveryFloat_def)

theorem buffers_initialised_to_lowest_float_witness:
  "(2559999::nat) < unat SCREEN_WIDTH * unat SCREEN_HEIGHT * unat CNT_SAMPLE
   \<and> mainZBuffer (initBuffers freshBuffers) 2559999 = - FLT_MAX
   \<and> (639999::nat) < unat SHADOW_WIDTH * unat SHADOW_HEIGHT
   \<and> shadowZBuffer (initBuffers freshBuffers) 639999 = - FLT_MAX"
proof -
  have a: "(2559999::nat) < unat SCREEN_WIDTH * unat SCREEN_HEIGHT * unat CNT_SAMPLE"
    by (simp add: SCREEN_WIDTH_def SCREEN_HEIGHT_def CNT_SAMPLE_def)
  have b: "(639999::nat) < unat SHADOW_WIDTH * unat SHADOW_HEIGHT"
    by (simp add: SHADOW_WIDTH_def SHADOW_HEIGHT_def)
  note t = buffers_initialised_to_lowest_float [of freshBuffers]
  have 1: "mainZBuffer (initBuffers freshBuffers) 2559999 = - FLT_MAX"
    using t a by blast
  have 2: "shadowZBuffer (initBuffers freshBuffers) 639999 = - FLT_MAX"
    using t b by blast
  show ?thesis using a b 1 2 by blast
qed

section \<open>The sample-offset tables\<close>

text \<open>
  Claim C9. Both tables have the stated number of entries, and the four samples of \<open>D_MSAA\<close>
  are the centres of the quadrants of the unit pixel around the point \<open>triangle\<close> shades the
  pixel at, \<open>(x + 1/2, y + 1/2)\<close>. The one sample of \<open>D_NonMSAA\<close> is not at that centre: it is
  the point \<open>(x, y)\<close>, half a pixel away in both directions.
\<close>

theorem nonmsaa_sample_off_center:
  "length D_NonMSAA = 1 \<and> length D_MSAA = 4
   \<and> map (samplePoint D_MSAA x y) [0, 1, 2, 3] = quadrantCenters (pixelCenter x y)
   \<and> samplePoint D_NonMSAA x y 0 = Vec2f (of_int x) (of_int y)
   \<and> samplePoint D_NonMSAA x y 0 \<noteq> pixelCenter x y"
  by (simp add: D_NonMSAA_def D_MSAA_def samplePoint_def quadrantCenters_def pixelCenter_def)

section \<open>The inverse of a matrix\<close>

lemma sg_odd: "sg k = (if odd k then - 1 else 1)"
  by (simp add: sg_def odd_iff_mod_2_eq_one)

lemma sg_Suc: "sg (Suc k) = - sg k"
  by (simp add: sg_odd)

lemma sg_add: "sg (a + b) = sg a * sg b"
  by (simp add: sg_odd)

lemma sg_sq: "sg k * sg k = 1"
  by (simp add: sg_odd)

lemma get_minor_0: "get_minor 0 c m i j = m (Suc i) (skipIdx c j)"
  by (simp add: get_minor_def skipIdx_def)

lemma unskip_skip: "unskipIdx k (skipIdx k l) = l"
  by (simp add: skipIdx_def unskipIdx_def)

lemma skip_unskip: "m \<noteq> k \<Longrightarrow> skipIdx k (unskipIdx k m) = m"
  by (auto simp: skipIdx_def unskipIdx_def)

lemma skip_bij: 
  assumes "k < Suc n"
  shows "bij_betw (skipIdx k) {..<n} ({..<Suc n} - {k})"
proof (rule bij_betw_byWitness[where f'="unskipIdx k"])
  show "\<forall>a\<in>{..<n}. unskipIdx k (skipIdx k a) = a" by (simp add: unskip_skip)
  show "\<forall>a'\<in>{..<Suc n} - {k}. skipIdx k (unskipIdx k a') = a'" by (simp add: skip_unskip)
  show "skipIdx k ` {..<n} \<subseteq> {..<Suc n} - {k}" by (auto simp: skipIdx_def)
  show "unskipIdx k ` ({..<Suc n} - {k}) \<subseteq> {..<n}" using assms by (auto simp: unskipIdx_def)
qed

lemma double_skip:
  assumes "k \<noteq> m"
  shows "skipIdx k (skipIdx (unskipIdx k m) j) = skipIdx m (skipIdx (unskipIdx m k) j)"
  using assms by (auto simp: skipIdx_def unskipIdx_def)

lemma double_minor:
  assumes "k \<noteq> m"
  shows "get_minor 0 (unskipIdx k m) (get_minor 0 k M) = get_minor 0 (unskipIdx m k) (get_minor 0 m M)"
  by (intro ext) (simp add: get_minor_0 double_skip[OF assms])

lemma double_sign:
  assumes "k \<noteq> m"
  shows "sg k * sg (unskipIdx k m) = - (sg m * sg (unskipIdx m k))"
proof (cases "m < k")
  case True
  then obtain k' where k: "k = Suc k'" by (cases k) simp_all
  show ?thesis using True by (simp add: unskipIdx_def k sg_Suc)
next
  case False
  then have "k < m" using assms by simp
  then obtain m' where m: "m = Suc m'" by (cases m) simp_all
  show ?thesis using \<open>k < m\<close> by (simp add: unskipIdx_def m sg_Suc)
qed

lemma pairWeight_antisym:
  "k \<noteq> m \<Longrightarrow> pairWeight n M k m = - pairWeight n M m k"
  unfolding pairWeight_def double_minor[of k m M] using double_sign[of k m]
  by (metis mult_minus_left)

lemma det_SS:
  "det (Suc (Suc n)) src
   = (\<Sum>i<Suc (Suc n). src 0 i * (det (Suc n) (get_minor 0 i src) * sg i))"
  by (simp add: sg_def del: sum.lessThan_Suc)

declare det.simps(2) [simp del]

lemma det_double:
  "det (Suc (Suc (Suc n))) M
   = (\<Sum>k<Suc (Suc (Suc n)). \<Sum>m\<in>{..<Suc (Suc (Suc n))} - {k}.
        M 0 k * M 1 m * pairWeight (Suc n) M k m)"
proof -
  let ?N = "Suc (Suc (Suc n))"
  have inner: "det (Suc (Suc n)) (get_minor 0 k M) * sg k
        = (\<Sum>m\<in>{..<?N} - {k}. M 1 m * pairWeight (Suc n) M k m)" if k: "k < ?N" for k
  proof -
    have "det (Suc (Suc n)) (get_minor 0 k M) * sg k
          = (\<Sum>l<Suc (Suc n). M 1 (skipIdx k l) *
               (sg k * sg l * det (Suc n) (get_minor 0 l (get_minor 0 k M))))"
      unfolding det_SS sum_distrib_right
      by (intro sum.cong refl) (simp add: get_minor_0)
    also have "\<dots> = (\<Sum>l<Suc (Suc n). M 1 (skipIdx k l) * pairWeight (Suc n) M k (skipIdx k l))"
      by (simp add: pairWeight_def unskip_skip)
    also have "\<dots> = (\<Sum>m\<in>{..<?N} - {k}. M 1 m * pairWeight (Suc n) M k m)"
      using skip_bij[of k "Suc (Suc n)"] k
      by (intro sum.reindex_bij_betw[where g="\<lambda>m. M 1 m * pairWeight (Suc n) M k m"]) simp
    finally show ?thesis .
  qed
  have "det ?N M = (\<Sum>k<?N. M 0 k * (det (Suc (Suc n)) (get_minor 0 k M) * sg k))"
    by (rule det_SS)
  also have "\<dots> = (\<Sum>k<?N. M 0 k * (\<Sum>m\<in>{..<?N} - {k}. M 1 m * pairWeight (Suc n) M k m))"
    by (intro sum.cong refl) (simp add: inner)
  also have "\<dots> = (\<Sum>k<?N. \<Sum>m\<in>{..<?N} - {k}. M 0 k * M 1 m * pairWeight (Suc n) M k m)"
    by (simp add: sum_distrib_left mult.assoc)
  finally show ?thesis .
qed


lemma pairWeight_swapRows0: "pairWeight n (swapRows 0 M) k m = pairWeight n M k m"
proof -
  have "get_minor 0 l (get_minor 0 k (swapRows 0 M)) = get_minor 0 l (get_minor 0 k M)" for l
    by (intro ext) (simp add: get_minor_0 swapRows_def)
  then show ?thesis by (simp add: pairWeight_def)
qed

lemma sum_offdiag_swap:
  fixes F :: "nat \<Rightarrow> nat \<Rightarrow> real"
  assumes "finite A"
  shows "(\<Sum>k\<in>A. \<Sum>m\<in>A - {k}. F m k) = (\<Sum>k\<in>A. \<Sum>m\<in>A - {k}. F k m)"
proof -
  have e: "A - {k} = {m. m \<in> A \<and> k \<noteq> m}" for k by auto
  have e': "A - {k} = {m. m \<in> A \<and> m \<noteq> k}" for k by auto
  have "(\<Sum>k\<in>A. \<Sum>m\<in>A - {k}. F m k) = (\<Sum>k\<in>A. \<Sum>m\<in>{m. m \<in> A \<and> k \<noteq> m}. F m k)"
    by (simp only: e[symmetric])
  also have "\<dots> = (\<Sum>m\<in>A. \<Sum>k\<in>{k. k \<in> A \<and> k \<noteq> m}. F m k)"
    by (rule sum.swap_restrict[OF assms assms, where g="\<lambda>k m. F m k" and R="\<lambda>k m. k \<noteq> m"])
  also have "\<dots> = (\<Sum>m\<in>A. \<Sum>k\<in>A - {m}. F m k)"
    by (simp only: e'[symmetric])
  finally show ?thesis .
qed

lemma det_swapRows0_2: "det (Suc (Suc 0)) (swapRows 0 M) = - det (Suc (Suc 0)) M"
  by (simp add: det_SS swapRows_def get_minor_def sg_def)

lemma det_swapRows0_big:
  "det (Suc (Suc (Suc n))) (swapRows 0 M) = - det (Suc (Suc (Suc n))) M"
proof -
  let ?N = "Suc (Suc (Suc n))"
  let ?F = "\<lambda>a b. M 0 a * M 1 b * pairWeight (Suc n) M a b"
  have "det ?N (swapRows 0 M)
        = (\<Sum>k<?N. \<Sum>m\<in>{..<?N} - {k}. M 1 k * M 0 m * pairWeight (Suc n) M k m)"
    unfolding det_double pairWeight_swapRows0 by (simp add: swapRows_def)
  also have "\<dots> = (\<Sum>k<?N. \<Sum>m\<in>{..<?N} - {k}. - ?F m k)"
  proof (intro sum.cong refl)
    fix k m assume "m \<in> {..<?N} - {k}"
    then have "k \<noteq> m" by auto
    then show "M 1 k * M 0 m * pairWeight (Suc n) M k m = - ?F m k"
      by (simp add: pairWeight_antisym[of k m])
  qed
  also have "\<dots> = - (\<Sum>k<?N. \<Sum>m\<in>{..<?N} - {k}. ?F m k)"
    by (simp add: sum_negf)
  also have "\<dots> = - (\<Sum>k<?N. \<Sum>m\<in>{..<?N} - {k}. ?F k m)"
    by (simp only: sum_offdiag_swap[of "{..<?N}" ?F, OF finite_lessThan])
  also have "\<dots> = - det ?N M"
    by (simp only: det_double)
  finally show ?thesis .
qed

lemma det_swapRows0: "det (Suc (Suc n)) (swapRows 0 M) = - det (Suc (Suc n)) M"
  by (cases n) (simp_all only: det_swapRows0_2 det_swapRows0_big)

lemma get_minor_swapRows_Suc:
  "get_minor 0 k (swapRows (Suc r) M) = swapRows r (get_minor 0 k M)"
  by (intro ext) (simp add: get_minor_0 swapRows_def)

lemma det_swapRows:
  "r + 1 < n \<Longrightarrow> det n (swapRows r M) = - det n M"
proof (induction n arbitrary: r M)
  case 0
  then show ?case by simp
next
  case (Suc n)
  show ?case
  proof (cases r)
    case 0
    obtain p where p: "n = Suc p" using Suc.prems 0 by (cases n) simp_all
    show ?thesis unfolding 0 p by (rule det_swapRows0)
  next
    case (Suc r')
    obtain p where p: "n = Suc p" using Suc.prems by (cases n) simp_all
    have r': "r' + 1 < n" using Suc.prems Suc by simp
    have "det (Suc (Suc p)) (swapRows (Suc r') M)
          = (\<Sum>k<Suc (Suc p). M 0 k * (det (Suc p) (swapRows r' (get_minor 0 k M)) * sg k))"
      unfolding det_SS get_minor_swapRows_Suc by (simp add: swapRows_def)
    also have "\<dots> = (\<Sum>k<Suc (Suc p). - (M 0 k * (det (Suc p) (get_minor 0 k M) * sg k)))"
      using Suc.IH[OF r'] unfolding p by simp
    also have "\<dots> = - det (Suc (Suc p)) M"
      unfolding det_SS by (simp add: sum_negf)
    finally show ?thesis unfolding Suc p .
  qed
qed


lemma det_equal_rows:
  "r < s \<Longrightarrow> s < n \<Longrightarrow> (\<forall>j. M r j = M s j) \<Longrightarrow> det n M = 0"
proof (induction n arbitrary: r s M)
  case 0
  then show ?case by simp
next
  case (Suc n)
  obtain p where p: "n = Suc p" using Suc.prems by (cases n) simp_all
  have pos: "det (Suc (Suc p)) A = 0"
    if h: "0 < a" "a < b" "b < Suc (Suc p)" "\<forall>j. A a j = A b j" for A a b
  proof -
    obtain a' where a': "a = Suc a'" using h(1) by (cases a) simp_all
    obtain b' where b': "b = Suc b'" using h(1,2) by (cases b) simp_all
    have "det (Suc p) (get_minor 0 k A) = 0" for k
    proof (rule Suc.IH[unfolded p, of a' b'])
      show "a' < b'" using h(2) a' b' by simp
      show "b' < Suc p" using h(3) b' by simp
      show "\<forall>j. get_minor 0 k A a' j = get_minor 0 k A b' j"
        using h(4) by (simp add: get_minor_0 a' b')
    qed
    then show ?thesis unfolding det_SS by simp
  qed
  show ?case
  proof (cases "0 < r")
    case True
    show ?thesis unfolding p using True Suc.prems unfolding p by (rule pos)
  next
    case False
    then have r: "r = 0" by simp
    have neg: "det (Suc (Suc p)) (swapRows 0 M) = - det (Suc (Suc p)) M"
      by (rule det_swapRows0)
    show ?thesis
    proof (cases "s = 1")
      case True
      have "M 0 = M 1" using Suc.prems(3) unfolding r True by (intro ext) simp
      then have "swapRows 0 M = M" by (intro ext) (simp add: swapRows_def)
      then show ?thesis using neg unfolding p by simp
    next
      case False
      then have s: "1 < s" using Suc.prems(1) r by simp
      have "det (Suc (Suc p)) (swapRows 0 M) = 0"
      proof (rule pos[of 1 s])
        show "(0::nat) < 1" by simp
        show "1 < s" by (rule s)
        show "s < Suc (Suc p)" using Suc.prems(2) p by simp
        show "\<forall>j. swapRows 0 M 1 j = swapRows 0 M s j"
          using Suc.prems(3) s r by (simp add: swapRows_def)
      qed
      then show ?thesis using neg unfolding p by simp
    qed
  qed
qed

lemma cofactor_sg: "cofactor n r c M = det (n - 1) (get_minor r c M) * sg (r + c)"
  by (simp add: cofactor_def sg_def)

lemma get_minor_swapRows_row:
  "get_minor r k (swapRows r M) = get_minor (Suc r) k M"
  by (intro ext) (auto simp: get_minor_def swapRows_def)

lemma det_expand_row:
  "r < n \<Longrightarrow> 2 \<le> n \<Longrightarrow> det n M = (\<Sum>k<n. M r k * cofactor n r k M)"
proof (induction r arbitrary: M)
  case 0
  obtain p where p: "n = Suc (Suc p)" using 0(2) by (cases n; cases "n - 1") simp_all
  show ?case unfolding p det_SS cofactor_sg by simp
next
  case (Suc r)
  have "det n (swapRows r M) = - det n M"
    using Suc.prems by (intro det_swapRows) simp
  then have "det n M = - det n (swapRows r M)" by simp
  also have "\<dots> = - (\<Sum>k<n. swapRows r M r k * cofactor n r k (swapRows r M))"
    using Suc.prems by (subst Suc.IH) simp_all
  also have "\<dots> = (\<Sum>k<n. M (Suc r) k * cofactor n (Suc r) k M)"
  proof -
    have "swapRows r M r k * cofactor n r k (swapRows r M)
          = - (M (Suc r) k * cofactor n (Suc r) k M)" for k
      unfolding cofactor_sg get_minor_swapRows_row by (simp add: swapRows_def sg_Suc)
    then show ?thesis by (simp add: sum_negf)
  qed
  finally show ?case .
qed

lemma cofactor_row_upd: "cofactor n j k (M(j := v)) = cofactor n j k M"
proof -
  have "get_minor j k (M(j := v)) = get_minor j k M"
    by (intro ext) (simp add: get_minor_def)
  then show ?thesis by (simp add: cofactor_def)
qed

lemma alien_cofactors:
  assumes "i \<noteq> j" "i < n" "j < n"
  shows "(\<Sum>k<n. M i k * cofactor n j k M) = 0"
proof -
  have n: "2 \<le> n" using assms by simp
  let ?M = "M(j := M i)"
  have "(\<Sum>k<n. M i k * cofactor n j k M) = (\<Sum>k<n. ?M j k * cofactor n j k ?M)"
    by (simp add: cofactor_row_upd)
  also have "\<dots> = det n ?M"
    using assms(3) n by (rule det_expand_row[symmetric])
  also have "\<dots> = 0"
  proof (cases "i < j")
    case True
    show ?thesis by (rule det_equal_rows[OF True assms(3)]) (simp add: assms(1))
  next
    case False
    then have "j < i" using assms(1) by simp
    then show ?thesis by (rule det_equal_rows[OF _ assms(2)]) (simp add: assms(1))
  qed
  finally show ?thesis .
qed

lemma invert_entry:
  assumes "2 \<le> n" "det n M \<noteq> 0"
  shows "invert n M = Some (\<lambda>k j. cofactor n j k M / det n M)"
proof -
  have "dotn n (adjugate n M 0) (M 0) = det n M"
    using det_expand_row[of 0 n M] assms(1) by (simp add: dotn_def adjugate_def mult.commute)
  then show ?thesis
    using assms(2)
    by (simp add: invert_def transpose_def invert_transpose_def Let_def adjugate_def)
qed

lemma mmul_cofactors:
  assumes "2 \<le> n" "det n M \<noteq> 0" "i < n" "j < n"
  shows "mmul n M (\<lambda>k j. cofactor n j k M / det n M) i j = identity i j"
proof -
  have "mmul n M (\<lambda>k j. cofactor n j k M / det n M) i j
        = (\<Sum>k<n. M i k * cofactor n j k M) / det n M"
    by (simp add: mmul_def dotn_def sum_divide_distrib)
  also have "\<dots> = identity i j"
  proof (cases "i = j")
    case True
    then show ?thesis
      using det_expand_row[OF assms(4) assms(1), of M] assms(2) by (simp add: identity_def)
  next
    case False
    then show ?thesis using alien_cofactors[OF False assms(3,4), of M] by (simp add: identity_def)
  qed
  finally show ?thesis .
qed

lemma det_uvMat: "det 2 uvMat = 1"
  by (simp add: eval_nat_numeral det_SS uvMat_def ofRows_def get_minor_def sg_def)

lemma det_floorTrans: "det 4 floorTrans = 1"
  by (simp add: eval_nat_numeral det_SS floorTrans_def ofRows_def get_minor_def sg_def)

text \<open>
  Claim C7. For every square matrix \<open>M\<close> the template can invert, that is with two rows or
  more, whose determinant is not zero, \<open>invert(M)\<close> is a matrix of numbers and every entry of
  \<open>M\<close> times \<open>invert(M)\<close> is the entry of the identity matrix, over exact arithmetic:
  \<open>invert\<close> is the transposed matrix of cofactors divided by the expansion of the determinant
  along the first row.
\<close>

theorem invert_is_inverse:
  assumes "2 \<le> n" "det n M \<noteq> 0"
  shows "invert n M \<noteq> None
         \<and> (\<forall>i<n. \<forall>j<n. mmul n M (the (invert n M)) i j = identity i j)"
  using assms by (simp add: invert_entry mmul_cofactors)

theorem invert_is_inverse_witness:
  "(2::nat) \<le> 2 \<and> det 2 uvMat \<noteq> 0 \<and> invert 2 uvMat \<noteq> None
   \<and> mmul 2 uvMat (the (invert 2 uvMat)) 0 0 = identity 0 0
   \<and> mmul 2 uvMat (the (invert 2 uvMat)) 0 1 = identity 0 1
   \<and> (2::nat) \<le> 4 \<and> det 4 floorTrans \<noteq> 0 \<and> invert 4 floorTrans \<noteq> None
   \<and> mmul 4 floorTrans (the (invert 4 floorTrans)) 1 3 = identity 1 3
   \<and> mmul 4 floorTrans (the (invert 4 floorTrans)) 3 3 = identity 3 3"
proof -
  have a: "(2::nat) \<le> 2" "(2::nat) \<le> 4" by simp_all
  have d2: "det 2 uvMat \<noteq> 0" by (simp add: det_uvMat)
  have d4: "det 4 floorTrans \<noteq> 0" by (simp add: det_floorTrans)
  note t2 = invert_is_inverse [OF a(1) d2]
  note t4 = invert_is_inverse [OF a(2) d4]
  have "mmul 2 uvMat (the (invert 2 uvMat)) 0 0 = identity 0 0"
    "mmul 2 uvMat (the (invert 2 uvMat)) 0 1 = identity 0 1"
    using t2 by simp_all
  moreover have "mmul 4 floorTrans (the (invert 4 floorTrans)) 1 3 = identity 1 3"
    "mmul 4 floorTrans (the (invert 4 floorTrans)) 3 3 = identity 3 3"
    using t4 by simp_all
  ultimately show ?thesis using a d2 d4 t2 t4 by simp
qed

end
